theory Spec2Isabelle
  imports Main "HOL-Library.List_Lexorder" "HOL-Library.Product_Lexorder" "HOL-Library.Sublist"
begin

section \<open>Python values\<close>

text \<open>
  A Python \<open>str\<close> is a sequence of Unicode code points, and \<open>len\<close> counts code points.
  The model therefore writes a string as a list of code points (natural numbers); \<open>u\<close>
  turns an ASCII literal into such a list. Lists of code points are ordered
  lexicographically, which is the order Python's \<open>sorted\<close> uses on strings.
\<close>

type_synonym ustr = "nat list"

definition u :: "string \<Rightarrow> ustr" where
  "u s = map of_char s"

datatype py_error = OverflowError | ZeroDivisionError

text \<open>
  \<open>str.isspace\<close>, \<open>str.strip()\<close> without argument and the regular expression class
  \<open>\s\<close> use one table of white space: the 29 code points below.
\<close>

definition py_isspace :: "nat \<Rightarrow> bool" where
  "py_isspace c \<longleftrightarrow>
     (9 \<le> c \<and> c \<le> 13) \<or> (28 \<le> c \<and> c \<le> 32) \<or> c = 133 \<or> c = 160 \<or> c = 5760 \<or>
     (8192 \<le> c \<and> c \<le> 8202) \<or> c = 8232 \<or> c = 8233 \<or> c = 8239 \<or> c = 8287 \<or> c = 12288"

definition strip_chars :: "(nat \<Rightarrow> bool) \<Rightarrow> ustr \<Rightarrow> ustr" where
  "strip_chars p s = rev (dropWhile p (rev (dropWhile p s)))"

definition py_strip :: "ustr \<Rightarrow> ustr" where
  "py_strip s = strip_chars py_isspace s"

text \<open>
  The decimal digits (\<open>int\<close>, and \<open>\d\<close> in a regular expression over \<open>str\<close>) are the
  code points of category Nd. They come in runs of ten, digit zero first; the table lists
  the first code point of each run (Unicode 14.0, the table of Python 3.11; the five runs
  from 120782 are the mathematical digits).
\<close>

definition nd_zeros :: "nat list" where
  "nd_zeros = [48, 1632, 1776, 1984, 2406, 2534, 2662, 2790, 2918, 3046, 3174, 3302, 3430,
     3558, 3664, 3792, 3872, 4160, 4240, 6112, 6160, 6470, 6608, 6784, 6800, 6992, 7088,
     7232, 7248, 42528, 43216, 43264, 43472, 43504, 43600, 44016, 65296, 66720, 68912,
     69734, 69872, 69942, 70096, 70384, 70736, 70864, 71248, 71360, 71472, 71904, 72016,
     72784, 73040, 73120, 92768, 92864, 93008, 120782, 120792, 120802, 120812, 120822,
     123200, 123632, 125264, 130032]"

definition digit_value :: "nat \<Rightarrow> nat option" where
  "digit_value c =
     (if c < 128 then (if 48 \<le> c \<and> c \<le> 57 then Some (c - 48) else None)
      else map_option (\<lambda>z. c - z) (find (\<lambda>z. z \<le> c \<and> c < z + 10) nd_zeros))"

definition is_decimal :: "nat \<Rightarrow> bool" where
  "is_decimal c \<longleftrightarrow> digit_value c \<noteq> None"

text \<open>
  \<open>int(s)\<close> for a string: white space around the literal is dropped (of the white space
  below 128 only tab, line feed, vertical tab, form feed, carriage return and space), then
  comes an optional sign and a non-empty run of digits in which single underscores may
  stand between two digits. More than 4300 digits are refused (the default of
  \<open>sys.set_int_max_str_digits\<close>). Every refusal is a \<open>ValueError\<close>, here \<open>None\<close>.
\<close>

definition int_space :: "nat \<Rightarrow> bool" where
  "int_space c \<longleftrightarrow> py_isspace c \<and> \<not> (28 \<le> c \<and> c \<le> 31)"

fun int_digits :: "ustr \<Rightarrow> nat list option" where
  "int_digits [] = None"
| "int_digits [c] = map_option (\<lambda>d. [d]) (digit_value c)"
| "int_digits (c # c' # r) =
     (case digit_value c of
        None \<Rightarrow> None
      | Some d \<Rightarrow> map_option ((#) d) (if c' = 95 then int_digits r else int_digits (c' # r)))"

definition digits_value :: "nat list \<Rightarrow> nat" where
  "digits_value ds = foldl (\<lambda>a d. 10 * a + d) 0 ds"

definition py_int :: "ustr \<Rightarrow> int option" where
  "py_int s =
     (case strip_chars int_space s of
        [] \<Rightarrow> None
      | c # r \<Rightarrow>
          (case int_digits (if c = 45 \<or> c = 43 then r else c # r) of
             None \<Rightarrow> None
           | Some ds \<Rightarrow>
               if length ds > 4300 then None
               else Some (if c = 45 then - int (digits_value ds) else int (digits_value ds))))"

text \<open>\<open>s.split(sep)\<close> for a separator of one character: never an empty list.\<close>

fun split_on :: "nat \<Rightarrow> ustr \<Rightarrow> ustr list" where
  "split_on sep [] = [[]]"
| "split_on sep (c # cs) =
     (if c = sep then [] # split_on sep cs
      else (case split_on sep cs of [] \<Rightarrow> [[c]] | p # ps \<Rightarrow> (c # p) # ps))"

text \<open>\<open>sep.join(parts)\<close>.\<close>

fun join :: "ustr \<Rightarrow> ustr list \<Rightarrow> ustr" where
  "join sep [] = []"
| "join sep [x] = x"
| "join sep (x # y # r) = x @ sep @ join sep (y # r)"

text \<open>
  \<open>str(n)\<close> for a natural number, and the format \<open>{n:0wd}\<close>: the decimal digits, filled
  with zeros on the left up to width \<open>w\<close>.
\<close>

fun str_nat :: "nat \<Rightarrow> ustr" where
  "str_nat n = (if n < 10 then [48 + n] else str_nat (n div 10) @ [48 + n mod 10])"

definition zero_pad :: "nat \<Rightarrow> nat \<Rightarrow> ustr" where
  "zero_pad w n = replicate (w - length (str_nat n)) 48 @ str_nat n"

text \<open>\<open>sorted(set(xs))\<close> on strings.\<close>

definition sorted_distinct :: "ustr list \<Rightarrow> ustr list" where
  "sorted_distinct xs = sort (remdups xs)"


section \<open>datetime\<close>

text \<open>
  A \<open>datetime\<close> is written with the proleptic Gregorian ordinal of its date
  (\<open>toordinal()\<close>: 1 is 0001-01-01 and \<open>MAXORDINAL\<close> is 9999-12-31), the form in which the
  library itself adds and subtracts, and its time of day. The time zone is left out: every
  datetime compared or subtracted below is made from one session start by \<open>replace\<close>,
  so they share their \<open>tzinfo\<close>, and the library then ignores it.
\<close>

record datetime =
  dt_ordinal :: nat
  dt_hour :: nat
  dt_minute :: nat
  dt_second :: nat
  dt_microsecond :: nat

definition MAXORDINAL :: nat where
  "MAXORDINAL = 3652059"

text \<open>\<open>dt.year\<close>, by the library's conversion of an ordinal to year, month and day.\<close>

definition ord2year :: "nat \<Rightarrow> nat" where
  "ord2year ordinal =
     (let n = ordinal - 1;
          n400 = n div 146097; n = n mod 146097;
          n100 = n div 36524; n = n mod 36524;
          n4 = n div 1461; n = n mod 1461;
          n1 = n div 365;
          year = n400 * 400 + 1 + n100 * 100 + n4 * 4 + n1
      in if n1 = 4 \<or> n100 = 4 then year - 1 else year)"

definition dt_year :: "datetime \<Rightarrow> nat" where
  "dt_year d = ord2year (dt_ordinal d)"

text \<open>\<open>a < b\<close>: the fields compared in order.\<close>

definition dt_less :: "datetime \<Rightarrow> datetime \<Rightarrow> bool" where
  "dt_less a b \<longleftrightarrow>
     (dt_ordinal a, dt_hour a, dt_minute a, dt_second a, dt_microsecond a)
       < (dt_ordinal b, dt_hour b, dt_minute b, dt_second b, dt_microsecond b)"

text \<open>\<open>d + timedelta(days=1)\<close>: \<open>OverflowError\<close> when the date leaves the range.\<close>

definition add_one_day :: "datetime \<Rightarrow> py_error + datetime" where
  "add_one_day d =
     (if 0 < dt_ordinal d + 1 \<and> dt_ordinal d + 1 \<le> MAXORDINAL
      then Inr (d\<lparr>dt_ordinal := dt_ordinal d + 1\<rparr>)
      else Inl OverflowError)"

text \<open>A \<open>timedelta\<close> is a whole number of microseconds; \<open>a - b\<close> on datetimes.\<close>

definition dt_micros :: "datetime \<Rightarrow> int" where
  "dt_micros d =
     (((int (dt_ordinal d) * 24 + int (dt_hour d)) * 60 + int (dt_minute d)) * 60
        + int (dt_second d)) * 1000000 + int (dt_microsecond d)"

definition dt_sub :: "datetime \<Rightarrow> datetime \<Rightarrow> int" where
  "dt_sub a b = dt_micros a - dt_micros b"

definition timedelta_minutes :: "nat \<Rightarrow> int" where
  "timedelta_minutes n = int n * 60 * 1000000"

text \<open>
  \<open>d.replace(hour=h, minute=m)\<close>. CPython first converts each keyword argument to a C
  \<open>int\<close> and raises \<open>OverflowError\<close> for a number that does not fit (below \<open>-2^31\<close> or
  above \<open>2^31 - 1\<close>); then a field out of range is a \<open>ValueError\<close>, here \<open>Inr None\<close>.
\<close>

definition fits_c_int :: "int \<Rightarrow> bool" where
  "fits_c_int n \<longleftrightarrow> - 2147483648 \<le> n \<and> n \<le> 2147483647"

definition replace_hour_minute :: "datetime \<Rightarrow> int \<Rightarrow> int \<Rightarrow> py_error + datetime option" where
  "replace_hour_minute d hour minute =
     (if \<not> fits_c_int hour \<or> \<not> fits_c_int minute then Inl OverflowError
      else if 0 \<le> hour \<and> hour \<le> 23 \<and> 0 \<le> minute \<and> minute \<le> 59
      then Inr (Some (d\<lparr>dt_hour := nat hour, dt_minute := nat minute\<rparr>))
      else Inr None)"


section \<open>Messages, sessions and chunks\<close>

text \<open>
  The fields of the three classes keep their names behind a prefix (\<open>m_\<close>, \<open>s_\<close>, \<open>c_\<close>),
  since several names occur in more than one class. The chunker reads a session from a
  JSON line written by the parser: the same fields, the start time as ISO text. The model
  hands it the session itself; \<open>s_start_time\<close> is then what
  \<open>datetime.fromisoformat\<close> makes of that text, \<open>None\<close> when the field is missing, empty
  or not a date.
\<close>

record message =
  m_time :: ustr
  m_nick :: ustr
  m_text :: ustr
  m_is_self :: bool

record session =
  s_session_id :: ustr
  s_source_file :: ustr
  s_channel :: "ustr option"
  s_target_nick :: "ustr option"
  s_start_time :: "datetime option"
  s_end_time :: "datetime option"
  s_participants :: "ustr list"
  s_messages :: "message list"
  s_network :: "ustr option"

record chunk =
  c_chunk_id :: ustr
  c_session_id :: ustr
  c_source_file :: ustr
  c_channel :: "ustr option"
  c_target_nick :: "ustr option"
  c_network :: "ustr option"
  c_participants :: "ustr list"
  c_start_time :: "ustr option"
  c_end_time :: "ustr option"
  c_year :: "nat option"
  c_decade :: "ustr option"
  c_text :: ustr
  c_message_count :: nat
  c_chunk_index :: nat


section \<open>chunk\_sessions.py\<close>

definition MAX_MESSAGES_PER_CHUNK :: nat where
  "MAX_MESSAGES_PER_CHUNK = 20"

definition MAX_CHARS_PER_CHUNK :: nat where
  "MAX_CHARS_PER_CHUNK = 8000"

definition TIME_GAP_MINUTES :: nat where
  "TIME_GAP_MINUTES = 30"

definition parse_time :: "ustr \<Rightarrow> datetime option \<Rightarrow> py_error + datetime option" where
  "parse_time time_str session_date =
     (if time_str = [] then Inr None
      else case session_date of
        None \<Rightarrow> Inr None
      | Some sd \<Rightarrow>
          (case map py_int (split_on 58 time_str) of
             [Some hour, Some minute] \<Rightarrow> replace_hour_minute sd hour minute
           | _ \<Rightarrow> Inr None))"

definition format_line :: "message \<Rightarrow> ustr" where
  "format_line msg = m_nick msg @ u '': '' @ m_text msg"

definition format_chunk_text :: "message list \<Rightarrow> ustr" where
  "format_chunk_text messages = join [10] (map format_line messages)"

definition get_year_and_decade :: "datetime option \<Rightarrow> nat option \<times> ustr option" where
  "get_year_and_decade dt =
     (case dt of
        None \<Rightarrow> (None, None)
      | Some d \<Rightarrow>
          (let year = dt_year d; decade_start = (year div 10) * 10
           in (Some year, Some (str_nat decade_start @ u ''s''))))"

definition should_split :: "message \<Rightarrow> message \<Rightarrow> datetime option \<Rightarrow> py_error + bool" where
  "should_split prev_msg curr_msg session_date =
     (case parse_time (m_time prev_msg) session_date of
        Inl e \<Rightarrow> Inl e
      | Inr prev_time \<Rightarrow>
     (case parse_time (m_time curr_msg) session_date of
        Inl e \<Rightarrow> Inl e
      | Inr curr_time \<Rightarrow>
     (case (prev_time, curr_time) of
        (Some p, Some c) \<Rightarrow>
          (case (if dt_less c p then add_one_day c else Inr c) of
             Inl e \<Rightarrow> Inl e
           | Inr c' \<Rightarrow> Inr (dt_sub c' p > timedelta_minutes TIME_GAP_MINUTES))
      | _ \<Rightarrow> Inr False)))"

text \<open>The chunk built at a \<open>yield\<close> from the buffer \<open>current_chunk\<close>.\<close>

definition emit_chunk :: "session \<Rightarrow> message list \<Rightarrow> nat \<Rightarrow> chunk" where
  "emit_chunk session current_chunk chunk_index =
     (let (year, decade) = get_year_and_decade (s_start_time session)
      in \<lparr> c_chunk_id = s_session_id session @ u ''_chunk'' @ zero_pad 3 chunk_index,
           c_session_id = s_session_id session,
           c_source_file = s_source_file session,
           c_channel = s_channel session,
           c_target_nick = s_target_nick session,
           c_network = s_network session,
           c_participants = sorted_distinct (map m_nick current_chunk),
           c_start_time = (if current_chunk \<noteq> [] then Some (m_time (hd current_chunk)) else None),
           c_end_time = (if current_chunk \<noteq> [] then Some (m_time (last current_chunk)) else None),
           c_year = year,
           c_decade = decade,
           c_text = format_chunk_text current_chunk,
           c_message_count = length current_chunk,
           c_chunk_index = chunk_index \<rparr>)"

text \<open>
  The loop of \<open>chunk_session\<close> over the messages still to come, with the loop variables
  \<open>current_chunk\<close>, \<open>current_chars\<close> and \<open>chunk_index\<close>. A generator hands out its
  chunks one by one and may then raise: the result is the list of what was yielded, each
  chunk beside the buffer it was built from, and the exception that ended the run, if any.
\<close>

fun chunk_loop ::
  "session \<Rightarrow> message list \<Rightarrow> nat \<Rightarrow> nat \<Rightarrow> message list
     \<Rightarrow> (message list \<times> chunk) list \<times> py_error option" where
  "chunk_loop session current_chunk current_chars chunk_index [] =
     (if current_chunk \<noteq> [] then [(current_chunk, emit_chunk session current_chunk chunk_index)]
      else [], None)"
| "chunk_loop session current_chunk current_chars chunk_index (msg # rest) =
     (let msg_chars = length (format_line msg @ [10])
      in case (if current_chunk \<noteq> [] then should_split (last current_chunk) msg (s_start_time session)
               else Inr False) of
           Inl e \<Rightarrow> ([], Some e)
         | Inr gap \<Rightarrow>
             (let should_start_new =
                    (gap \<or> length current_chunk \<ge> MAX_MESSAGES_PER_CHUNK
                         \<or> current_chars + msg_chars > MAX_CHARS_PER_CHUNK)
              in if should_start_new \<and> current_chunk \<noteq> [] then
                   (case chunk_loop session [msg] msg_chars (chunk_index + 1) rest of
                      (ys, e) \<Rightarrow> ((current_chunk, emit_chunk session current_chunk chunk_index) # ys, e))
                 else chunk_loop session (current_chunk @ [msg]) (current_chars + msg_chars)
                        chunk_index rest))"

definition chunk_trace :: "session \<Rightarrow> (message list \<times> chunk) list \<times> py_error option" where
  "chunk_trace session =
     (if s_messages session = [] then ([], None)
      else chunk_loop session [] 0 0 (s_messages session))"

definition chunk_session :: "session \<Rightarrow> chunk list \<times> py_error option" where
  "chunk_session session = (case chunk_trace session of (ys, e) \<Rightarrow> (map snd ys, e))"

text \<open>The buffers behind the chunks of \<open>chunk_session\<close>, in the order of the chunks.\<close>

definition chunk_buffers :: "session \<Rightarrow> message list list" where
  "chunk_buffers session = map fst (fst (chunk_trace session))"

text \<open>
  \<open>process_sessions\<close> on the sessions read from the input file: the chunks written to the
  output file, the three counters, and the exception that ended the run, if any. The last
  line of the summary divides by \<open>total_chunks\<close>.
\<close>

record run =
  written :: "chunk list"
  total_sessions :: nat
  total_chunks :: nat
  total_messages :: nat

fun write_chunks :: "int \<Rightarrow> chunk list \<Rightarrow> run \<Rightarrow> run" where
  "write_chunks min_messages [] r = r"
| "write_chunks min_messages (c # cs) r =
     write_chunks min_messages cs
       (if int (c_message_count c) \<ge> min_messages
        then r\<lparr> written := written r @ [c],
                total_chunks := total_chunks r + 1,
                total_messages := total_messages r + c_message_count c \<rparr>
        else r)"

fun process_loop :: "int \<Rightarrow> session list \<Rightarrow> run \<Rightarrow> run \<times> py_error option" where
  "process_loop min_messages [] r = (r, None)"
| "process_loop min_messages (session # rest) r =
     (let r1 = r\<lparr> total_sessions := total_sessions r + 1 \<rparr>
      in case chunk_session session of
           (cs, Some e) \<Rightarrow> (write_chunks min_messages cs r1, Some e)
         | (cs, None) \<Rightarrow> process_loop min_messages rest (write_chunks min_messages cs r1))"

definition process_sessions :: "session list \<Rightarrow> int \<Rightarrow> run \<times> py_error option" where
  "process_sessions sessions min_messages =
     (case process_loop min_messages sessions
             \<lparr> written = [], total_sessions = 0, total_chunks = 0, total_messages = 0 \<rparr> of
        (r, Some e) \<Rightarrow> (r, Some e)
      | (r, None) \<Rightarrow> (r, if total_chunks r = 0 then Some ZeroDivisionError else None))"


text \<open>Every chunk the run of \<open>process_sessions\<close> receives from \<open>chunk_session\<close>, in order.\<close>

fun yielded_chunks :: "session list \<Rightarrow> chunk list" where
  "yielded_chunks [] = []"
| "yielded_chunks (session # rest) =
     (case chunk_session session of
        (cs, Some e) \<Rightarrow> cs
      | (cs, None) \<Rightarrow> cs @ yielded_chunks rest)"

definition DEFAULT_MIN_MESSAGES :: int where
  "DEFAULT_MIN_MESSAGES = 3"


section \<open>Regular expressions\<close>

text \<open>
  The patterns of the parser use a small part of \<open>re\<close>: character classes, sequence,
  alternation, the greedy repetition of one class, capture groups and the anchors \<open>^\<close>
  and \<open>$\<close>. \<open>re_step r st\<close> lists the states in which a match of \<open>r\<close> begun in
  \<open>st\<close> can end, in the order in which the backtracking matcher tries them: the first
  alternative first, the longest repetition first. A state is the position reached, the
  text still to read and the groups captured so far. \<open>$\<close> holds at the end of the text
  and before a line feed that ends it.
\<close>

datatype re =
    Chr "nat \<Rightarrow> bool"
  | Many "nat \<Rightarrow> bool"
  | Seq re re
  | Alt re re
  | Grp nat re
  | Eps
  | Bol
  | Eol

type_synonym mstate = "nat \<times> ustr \<times> (nat \<rightharpoonup> ustr)"

primrec re_step :: "re \<Rightarrow> mstate \<Rightarrow> mstate list" where
  "re_step (Chr p) st =
     (case st of (n, s, g) \<Rightarrow>
        (case s of [] \<Rightarrow> [] | x # xs \<Rightarrow> if p x then [(n + 1, xs, g)] else []))"
| "re_step (Many p) st =
     (case st of (n, s, g) \<Rightarrow>
        map (\<lambda>k. (n + k, drop k s, g)) (rev [0 ..< Suc (length (takeWhile p s))]))"
| "re_step (Seq a b) st = concat (map (re_step b) (re_step a st))"
| "re_step (Alt a b) st = re_step a st @ re_step b st"
| "re_step (Grp i a) st =
     (case st of (n, s, g) \<Rightarrow>
        map (\<lambda>(n', s', g'). (n', s', g'(i \<mapsto> take (n' - n) s))) (re_step a st))"
| "re_step Eps st = [st]"
| "re_step Bol st = (case st of (n, s, g) \<Rightarrow> if n = 0 then [st] else [])"
| "re_step Eol st = (case st of (n, s, g) \<Rightarrow> if s = [] \<or> s = [10] then [st] else [])"

text \<open>
  \<open>pattern.match(s)\<close>: the first way to match at the start of \<open>s\<close>, as the end of the
  match and its groups. \<open>match_group g i\<close> is \<open>match.group(i)\<close> for a group that took part in
  the match, as every group of the patterns below does.
\<close>

definition re_match_at :: "re \<Rightarrow> nat \<Rightarrow> ustr \<Rightarrow> (nat \<times> (nat \<rightharpoonup> ustr)) option" where
  "re_match_at r pos s =
     (case re_step r (pos, s, Map.empty) of [] \<Rightarrow> None | (n, rest, g) # _ \<Rightarrow> Some (n, g))"

definition re_match :: "re \<Rightarrow> ustr \<Rightarrow> (nat \<times> (nat \<rightharpoonup> ustr)) option" where
  "re_match r s = re_match_at r 0 s"

definition match_group :: "(nat \<rightharpoonup> ustr) \<Rightarrow> nat \<Rightarrow> ustr" where
  "match_group g i = (case g i of Some x \<Rightarrow> x | None \<Rightarrow> [])"

text \<open>
  \<open>pattern.sub('', s)\<close> for a pattern that matches no empty text: the scan from the left
  drops each match it finds and goes on behind it. \<open>skip\<close> counts the characters of the
  current match still to drop.
\<close>

fun sub_scan :: "re \<Rightarrow> nat \<Rightarrow> nat \<Rightarrow> ustr \<Rightarrow> ustr" where
  "sub_scan r pos skip [] = []"
| "sub_scan r pos (Suc k) (c # cs) = sub_scan r (pos + 1) k cs"
| "sub_scan r pos 0 (c # cs) =
     (case re_match_at r pos (c # cs) of
        None \<Rightarrow> c # sub_scan r (pos + 1) 0 cs
      | Some (n, g) \<Rightarrow>
          if n > pos then sub_scan r (pos + 1) (n - pos - 1) cs
          else c # sub_scan r (pos + 1) 0 cs)"

definition re_sub :: "re \<Rightarrow> ustr \<Rightarrow> ustr" where
  "re_sub r s = sub_scan r 0 0 s"

definition seqs :: "re list \<Rightarrow> re" where
  "seqs rs = foldr Seq rs Eps"

fun alts :: "re list \<Rightarrow> re" where
  "alts [] = Eps"
| "alts [r] = r"
| "alts (r # rs) = Alt r (alts rs)"

definition Plus :: "(nat \<Rightarrow> bool) \<Rightarrow> re" where
  "Plus p = Seq (Chr p) (Many p)"

definition Opt :: "re \<Rightarrow> re" where
  "Opt r = Alt r Eps"

definition lit :: "string \<Rightarrow> re" where
  "lit s = seqs (map (\<lambda>c. Chr (\<lambda>x. x = of_char c)) s)"

text \<open>
  A literal under \<open>re.IGNORECASE\<close>. An ASCII character of a pattern matches the
  characters with the same lower case, among them U+0130 for \<open>i\<close> and the Kelvin sign
  U+212A for \<open>k\<close>, and the two characters the matcher treats as variants: the dotless
  U+0131 for \<open>i\<close> and the long U+017F for \<open>s\<close>.
\<close>

definition sre_lower :: "nat \<Rightarrow> nat" where
  "sre_lower x =
     (if 65 \<le> x \<and> x \<le> 90 then x + 32 else if x = 304 then 105 else if x = 8490 then 107 else x)"

definition ci_eq :: "nat \<Rightarrow> nat \<Rightarrow> bool" where
  "ci_eq c x \<longleftrightarrow>
     sre_lower x = sre_lower c \<or> (sre_lower c = 105 \<and> x = 305) \<or> (sre_lower c = 115 \<and> x = 383)"

definition lit_i :: "string \<Rightarrow> re" where
  "lit_i s = seqs (map (\<lambda>c. Chr (ci_eq (of_char c))) s)"

definition any_char :: "nat \<Rightarrow> bool" where
  "any_char x \<longleftrightarrow> x \<noteq> 10"

definition in_range :: "nat \<Rightarrow> nat \<Rightarrow> nat \<Rightarrow> bool" where
  "in_range lo hi x \<longleftrightarrow> lo \<le> x \<and> x \<le> hi"


section \<open>parse\_mirc\_logs.py: patterns\<close>

text \<open>\<open>\x03(\d{1,2}(,\d{1,2})?)?\<close>\<close>

definition MIRC_COLOR_PATTERN :: re where
  "MIRC_COLOR_PATTERN =
     seqs [Chr (\<lambda>x. x = 3),
           Opt (Grp 1 (seqs [Chr is_decimal, Opt (Chr is_decimal),
                             Opt (Grp 2 (seqs [lit '','', Chr is_decimal, Opt (Chr is_decimal)]))]))]"

definition MIRC_BOLD :: nat where "MIRC_BOLD = 2"
definition MIRC_ITALIC :: nat where "MIRC_ITALIC = 29"
definition MIRC_UNDERLINE :: nat where "MIRC_UNDERLINE = 31"
definition MIRC_STRIKETHROUGH :: nat where "MIRC_STRIKETHROUGH = 30"
definition MIRC_REVERSE :: nat where "MIRC_REVERSE = 22"
definition MIRC_RESET :: nat where "MIRC_RESET = 15"

text \<open>The 83 glyphs of the class in \<open>MIRC_DECORATIONS\<close>, by code point.\<close>

definition decoration_glyphs :: "nat list" where
  "decoration_glyphs =
     [167, 182, 8252, 8592, 8593, 8594, 8595, 8596, 8597, 8616, 8735, 8962, 9472, 9474, 9484,
      9488, 9492, 9496, 9500, 9508, 9516, 9524, 9532, 9552, 9553, 9554, 9555, 9556, 9557,
      9558, 9559, 9560, 9561, 9562, 9563, 9564, 9565, 9566, 9567, 9568, 9569, 9570, 9571,
      9572, 9573, 9574, 9575, 9576, 9577, 9578, 9579, 9580, 9600, 9604, 9608, 9612, 9616,
      9617, 9618, 9619, 9632, 9633, 9642, 9643, 9644, 9650, 9658, 9660, 9668, 9674, 9675,
      9679, 9688, 9689, 9786, 9787, 9788, 9824, 9827, 9829, 9830, 9834, 9835]"

definition is_decoration :: "nat \<Rightarrow> bool" where
  "is_decoration x \<longleftrightarrow> x \<in> set decoration_glyphs"

definition MIRC_DECORATIONS :: re where
  "MIRC_DECORATIONS = Plus is_decoration"

text \<open>\<open>^Session Start: (.+)$\<close>, \<open>^Session Close: (.+)$\<close>, \<open>^Session Ident: (\S+)\<close>\<close>

definition SESSION_START_PATTERN :: re where
  "SESSION_START_PATTERN = seqs [Bol, lit ''Session Start: '', Grp 1 (Plus any_char), Eol]"

definition SESSION_CLOSE_PATTERN :: re where
  "SESSION_CLOSE_PATTERN = seqs [Bol, lit ''Session Close: '', Grp 1 (Plus any_char), Eol]"

definition SESSION_IDENT_PATTERN :: re where
  "SESSION_IDENT_PATTERN =
     seqs [Bol, lit ''Session Ident: '', Grp 1 (Plus (\<lambda>x. \<not> py_isspace x))]"

text \<open>
  \<open>^\[(\d{1,2}:\d{2})\]\s+\[([^\]]+)\]\s+(.*)$\<close> and
  \<open>^\[(\d{1,2}:\d{2})\]\s+\(([^)]+)\)\s+(.*)$\<close>
\<close>

definition hh_mm :: re where
  "hh_mm = seqs [Chr is_decimal, Opt (Chr is_decimal), lit '':'', Chr is_decimal, Chr is_decimal]"

definition OTHER_USER_MSG_PATTERN :: re where
  "OTHER_USER_MSG_PATTERN =
     seqs [Bol, lit ''['', Grp 1 hh_mm, lit '']'', Plus py_isspace,
           lit ''['', Grp 2 (Plus (\<lambda>x. x \<noteq> 93)), lit '']'', Plus py_isspace,
           Grp 3 (Many any_char), Eol]"

definition YOUR_MSG_PATTERN :: re where
  "YOUR_MSG_PATTERN =
     seqs [Bol, lit ''['', Grp 1 hh_mm, lit '']'', Plus py_isspace,
           lit ''('', Grp 2 (Plus (\<lambda>x. x \<noteq> 41)), lit '')'', Plus py_isspace,
           Grp 3 (Many any_char), Eol]"

text \<open>
  The fourteen noise patterns, in the order of the list. The class of bullets holds
  U+FFFD, U+2605, U+2606, U+25CF and U+25CB. In the fourth pattern the alternation reaches
  over the whole pattern, so that only its first branch carries the \<open>^\[\s*\<close>.
\<close>

definition is_bullet :: "nat \<Rightarrow> bool" where
  "is_bullet x \<longleftrightarrow> x = 65533 \<or> x = 9733 \<or> x = 9734 \<or> x = 9679 \<or> x = 9675"

definition NOISE_PATTERNS :: "re list" where
  "NOISE_PATTERNS =
     [seqs [Bol, lit ''['', Many any_char, lit '']'', Many py_isspace, Chr is_bullet, Many py_isspace,
            Grp 1 (alts [lit_i ''joins'', lit_i ''parts'', lit_i ''quits'', lit_i ''nick change'',
                         lit_i ''mode''])],
      seqs [Bol, Chr is_bullet, Many py_isspace,
            Grp 1 (alts [lit_i ''joins'', lit_i ''parts'', lit_i ''quits'', lit_i ''nick change'',
                         lit_i ''mode'', lit ''[''])],
      seqs [Bol, lit ''***'', Plus py_isspace,
            Grp 1 (alts [lit_i ''Disconnected'', lit_i ''Retrieving'', lit_i ''Connecting''])],
      alts [seqs [Bol, lit ''['', Many py_isspace, lit_i ''topic..''],
            lit_i ''modes..'', lit_i ''by..'', lit_i ''time..''],
      seqs [Bol, Plus (\<lambda>x. x = 65533 \<or> x = 95), lit ''[''],
      seqs [Bol, Plus (\<lambda>x. x = 65533), lit ''[''],
      seqs [Bol, Many py_isspace, lit_i ''[u@h:''],
      seqs [Bol, Many py_isspace, lit_i ''[realname:''],
      seqs [Bol, Many py_isspace, lit_i ''[channels:''],
      seqs [Bol, Many py_isspace, lit_i ''[server:''],
      seqs [Bol, Many py_isspace, lit_i ''[idle:''],
      seqs [Bol, Chr is_decimal, Chr is_decimal, Many py_isspace,
            Chr (\<lambda>x. x = 91 \<or> x = 45 \<or> x = 42)],
      seqs [Bol, lit_i ''Local host:''],
      seqs [Bol, Many py_isspace, Eol]]"


section \<open>parse\_mirc\_logs.py: functions\<close>

text \<open>\<open>s.replace(c, '')\<close> for a string \<open>c\<close> of one character.\<close>

definition remove_char :: "nat \<Rightarrow> ustr \<Rightarrow> ustr" where
  "remove_char c s = filter (\<lambda>x. x \<noteq> c) s"

definition strip_mirc_codes :: "ustr \<Rightarrow> ustr" where
  "strip_mirc_codes text0 =
     (let text1 = re_sub MIRC_COLOR_PATTERN text0;
          text2 = foldl (\<lambda>t code. remove_char code t) text1
                    [MIRC_BOLD, MIRC_ITALIC, MIRC_UNDERLINE, MIRC_STRIKETHROUGH,
                     MIRC_REVERSE, MIRC_RESET];
          text3 = re_sub MIRC_DECORATIONS text2
      in py_strip text3)"

definition is_noise_line :: "ustr \<Rightarrow> bool" where
  "is_noise_line line =
     (let cleaned = strip_mirc_codes line
      in list_ex (\<lambda>pattern. re_match pattern cleaned \<noteq> None) NOISE_PATTERNS)"

text \<open>
  The calendar of the library: \<open>datetime(y, m, d, H, M, S)\<close> raises \<open>ValueError\<close>
  unless the date exists and the time is in range; the ordinal of a date is the number of
  days before its year, plus those before its month, plus the day.
\<close>

definition is_leap :: "nat \<Rightarrow> bool" where
  "is_leap year \<longleftrightarrow> year mod 4 = 0 \<and> (year mod 100 \<noteq> 0 \<or> year mod 400 = 0)"

definition DAYS_IN_MONTH :: "nat list" where
  "DAYS_IN_MONTH = [31, 28, 31, 30, 31, 30, 31, 31, 30, 31, 30, 31]"

definition days_in_month :: "nat \<Rightarrow> nat \<Rightarrow> nat" where
  "days_in_month year month =
     (if month = 2 \<and> is_leap year then 29 else DAYS_IN_MONTH ! (month - 1))"

definition days_before_year :: "nat \<Rightarrow> nat" where
  "days_before_year year =
     (let y = year - 1 in y * 365 + y div 4 - y div 100 + y div 400)"

definition days_before_month :: "nat \<Rightarrow> nat \<Rightarrow> nat" where
  "days_before_month year month =
     sum_list (take (month - 1) DAYS_IN_MONTH) + (if month > 2 \<and> is_leap year then 1 else 0)"

definition ymd2ord :: "nat \<Rightarrow> nat \<Rightarrow> nat \<Rightarrow> nat" where
  "ymd2ord year month day = days_before_year year + days_before_month year month + day"

definition new_datetime :: "int \<Rightarrow> nat \<Rightarrow> int \<Rightarrow> int \<Rightarrow> int \<Rightarrow> int \<Rightarrow> datetime option" where
  "new_datetime year month day hour minute second =
     (if 1 \<le> year \<and> year \<le> 9999 \<and> 1 \<le> month \<and> month \<le> 12
         \<and> 1 \<le> day \<and> day \<le> int (days_in_month (nat year) month)
         \<and> 0 \<le> hour \<and> hour \<le> 23 \<and> 0 \<le> minute \<and> minute \<le> 59 \<and> 0 \<le> second \<and> second \<le> 59
      then Some \<lparr> dt_ordinal = ymd2ord (nat year) month (nat day), dt_hour = nat hour,
                  dt_minute = nat minute, dt_second = nat second, dt_microsecond = 0 \<rparr>
      else None)"

text \<open>
  \<open>datetime.strptime\<close> for the three formats of \<open>parse_datetime\<close>, in the C locale. The
  library turns a format into a pattern, matched without regard to case: each directive a
  named group, each run of white space \<open>\s+\<close>. The three formats differ in the year
  only (\<open>%Y\<close>: four digits, \<open>%y\<close>: two), since the two blanks of the third are one
  run. The whole string must match; the names are looked up in lower case, the numbers
  read by \<open>int\<close>; every failure is a \<open>ValueError\<close>, here \<open>None\<close>.
\<close>

datatype year_directive = Year4 | Year2

definition a_weekday :: "string list" where
  "a_weekday = [''mon'', ''tue'', ''wed'', ''thu'', ''fri'', ''sat'', ''sun'']"

definition a_month :: "string list" where
  "a_month = [''jan'', ''feb'', ''mar'', ''apr'', ''may'', ''jun'', ''jul'', ''aug'', ''sep'',
     ''oct'', ''nov'', ''dec'']"

definition format_regex :: "year_directive \<Rightarrow> re" where
  "format_regex yd =
     seqs [Grp 1 (alts (map lit_i a_weekday)), Plus py_isspace,
           Grp 2 (alts (map lit_i a_month)), Plus py_isspace,
           Grp 3 (alts [seqs [lit ''3'', Chr (in_range 48 49)],
                        seqs [Chr (in_range 49 50), Chr is_decimal],
                        seqs [lit ''0'', Chr (in_range 49 57)],
                        Chr (in_range 49 57),
                        seqs [lit '' '', Chr (in_range 49 57)]]), Plus py_isspace,
           Grp 4 (alts [seqs [lit ''2'', Chr (in_range 48 51)],
                        seqs [Chr (in_range 48 49), Chr is_decimal],
                        Chr is_decimal]), lit '':'',
           Grp 5 (alts [seqs [Chr (in_range 48 53), Chr is_decimal], Chr is_decimal]), lit '':'',
           Grp 6 (alts [seqs [lit ''6'', Chr (in_range 48 49)],
                        seqs [Chr (in_range 48 53), Chr is_decimal],
                        Chr is_decimal]), Plus py_isspace,
           Grp 7 (case yd of
                    Year4 \<Rightarrow> seqs [Chr is_decimal, Chr is_decimal, Chr is_decimal, Chr is_decimal]
                  | Year2 \<Rightarrow> seqs [Chr is_decimal, Chr is_decimal])]"

text \<open>
  \<open>str.lower\<close> on the characters a name can be matched with: U+0130 becomes \<open>i\<close> with
  a combining dot, the Kelvin sign \<open>k\<close>.
\<close>

definition py_lower :: "ustr \<Rightarrow> ustr" where
  "py_lower s =
     concat (map (\<lambda>x. if 65 \<le> x \<and> x \<le> 90 then [x + 32] else if x = 304 then [105, 775]
                        else if x = 8490 then [107] else [x]) s)"

fun index_of :: "ustr \<Rightarrow> ustr list \<Rightarrow> nat option" where
  "index_of x [] = None"
| "index_of x (y # ys) = (if x = y then Some 0 else map_option Suc (index_of x ys))"

definition strptime :: "ustr \<Rightarrow> year_directive \<Rightarrow> datetime option" where
  "strptime data_string yd =
     (case re_match (format_regex yd) data_string of
        None \<Rightarrow> None
      | Some (n, g) \<Rightarrow>
          if length data_string \<noteq> n then None
          else
            (case (index_of (py_lower (match_group g 1)) (map u a_weekday),
                   index_of (py_lower (match_group g 2)) (map u a_month)) of
               (Some weekday, Some m) \<Rightarrow>
                 (case map py_int [match_group g 3, match_group g 4, match_group g 5, match_group g 6, match_group g 7] of
                    [Some day, Some hour, Some minute, Some second, Some y] \<Rightarrow>
                      new_datetime
                        (case yd of Year4 \<Rightarrow> y | Year2 \<Rightarrow> if y \<le> 68 then y + 2000 else y + 1900)
                        (m + 1) day hour minute second
                  | _ \<Rightarrow> None)
             | _ \<Rightarrow> None))"

fun first_some :: "('a \<Rightarrow> 'b option) \<Rightarrow> 'a list \<Rightarrow> 'b option" where
  "first_some f [] = None"
| "first_some f (x # xs) = (case f x of Some y \<Rightarrow> Some y | None \<Rightarrow> first_some f xs)"

definition parse_datetime :: "ustr \<Rightarrow> datetime option" where
  "parse_datetime date_str = first_some (strptime (py_strip date_str)) [Year4, Year2, Year4]"

text \<open>
  \<open>Path(filename).stem\<close> on a POSIX path: the last component that is neither empty nor
  a dot, without its last suffix; a dot at the start or the end of the name begins no
  suffix. \<open>rsplit_dot\<close> is \<open>base.rsplit('.', 1)\<close>, and \<open>str.isdigit\<close> knows, besides
  the decimal digits, the superscript, subscript and circled digits of the ranges below.
\<close>

definition path_name :: "ustr \<Rightarrow> ustr" where
  "path_name p =
     (case filter (\<lambda>c. c \<noteq> [] \<and> c \<noteq> u ''.'') (split_on 47 p) of
        [] \<Rightarrow> []
      | parts \<Rightarrow> last parts)"

definition path_stem :: "ustr \<Rightarrow> ustr" where
  "path_stem p =
     (let name = path_name p; parts = split_on 46 name
      in if length parts \<ge> 2 \<and> join [46] (butlast parts) \<noteq> [] \<and> last parts \<noteq> []
         then join [46] (butlast parts) else name)"

definition rsplit_dot :: "ustr \<Rightarrow> ustr list" where
  "rsplit_dot base =
     (let parts = split_on 46 base
      in if length parts \<ge> 2 then [join [46] (butlast parts), last parts] else [base])"

definition other_digit_ranges :: "(nat \<times> nat) list" where
  "other_digit_ranges =
     [(178, 179), (185, 185), (4969, 4977), (6618, 6618), (8304, 8304), (8308, 8313),
      (8320, 8329), (9312, 9320), (9332, 9340), (9352, 9360), (9450, 9450), (9461, 9469),
      (9471, 9471), (10102, 10110), (10112, 10120), (10122, 10130), (68160, 68163),
      (69216, 69224), (69714, 69722), (127232, 127242)]"

definition py_isdigit :: "ustr \<Rightarrow> bool" where
  "py_isdigit s \<longleftrightarrow>
     s \<noteq> [] \<and> list_all (\<lambda>x. is_decimal x \<or> list_ex (\<lambda>(lo, hi). lo \<le> x \<and> x \<le> hi) other_digit_ranges) s"

definition extract_channel_info :: "ustr \<Rightarrow> ustr option \<times> ustr option \<times> ustr option" where
  "extract_channel_info filename =
     (let base = path_stem filename;
          is_channel = (take 1 base = u ''#'' \<or> take 1 base = u ''@'');
          parts = rsplit_dot base;
          (name, network) =
             (if length parts = 2 \<and> \<not> py_isdigit (parts ! 1) then (parts ! 0, Some (parts ! 1))
              else (base, None));
          channel = (if is_channel then Some name else None);
          target_nick = (if \<not> is_channel then Some name else None)
      in (channel, target_nick, network))"

text \<open>
  The state of the loop in \<open>parse_log_file\<close>: the session being built, the counter of
  sessions and the set of nicks seen in it. \<open>step\<close> is the body of the loop for one line
  of the file: the new state and the session it yields, if any. \<open>truthy\<close> is the test
  \<open>if channel\<close> on an optional string.
\<close>

record pstate =
  current_session :: "session option"
  session_count :: nat
  participants :: "ustr set"

definition truthy :: "ustr option \<Rightarrow> bool" where
  "truthy x \<longleftrightarrow> (case x of None \<Rightarrow> False | Some s \<Rightarrow> s \<noteq> [])"

definition rstrip_chars :: "(nat \<Rightarrow> bool) \<Rightarrow> ustr \<Rightarrow> ustr" where
  "rstrip_chars p s = rev (dropWhile p (rev s))"

text \<open>The session frozen for a \<open>yield\<close>, when it has messages.\<close>

definition flush :: "pstate \<Rightarrow> session list" where
  "flush st =
     (case current_session st of
        None \<Rightarrow> []
      | Some cs \<Rightarrow>
          if s_messages cs \<noteq> [] then [cs\<lparr>s_participants := sorted_list_of_set (participants st)\<rparr>]
          else [])"

definition add_message :: "pstate \<Rightarrow> session \<Rightarrow> message \<Rightarrow> pstate" where
  "add_message st cs msg =
     (if m_text msg \<noteq> [] then
        st\<lparr> current_session := Some (cs\<lparr>s_messages := s_messages cs @ [msg]\<rparr>),
            participants := insert (m_nick msg) (participants st) \<rparr>
      else st)"

definition step :: "ustr \<Rightarrow> pstate \<Rightarrow> ustr \<Rightarrow> pstate \<times> session list" where
  "step filepath st line0 =
     (let (channel, target_nick, network) = extract_channel_info filepath;
          line = rstrip_chars (\<lambda>x. x = 10 \<or> x = 13) line0
      in case re_match SESSION_START_PATTERN line of
           Some (n, g) \<Rightarrow>
             (let count = session_count st + 1
              in (\<lparr> current_session = Some
                      \<lparr> s_session_id = path_stem filepath @ u ''_'' @ zero_pad 4 count,
                        s_source_file = filepath,
                        s_channel = channel,
                        s_target_nick = target_nick,
                        s_start_time = parse_datetime (match_group g 1),
                        s_end_time = None,
                        s_participants = [],
                        s_messages = [],
                        s_network = network \<rparr>,
                    session_count = count,
                    participants = {} \<rparr>, flush st))
         | None \<Rightarrow>
        (case (re_match SESSION_CLOSE_PATTERN line, current_session st) of
           (Some (n, g), Some cs) \<Rightarrow>
             (st\<lparr>current_session := Some (cs\<lparr>s_end_time := parse_datetime (match_group g 1)\<rparr>)\<rparr>, [])
         | _ \<Rightarrow>
        (case (re_match SESSION_IDENT_PATTERN line, current_session st, truthy channel) of
           (Some (n, g), Some cs, False) \<Rightarrow>
             (let ident = match_group g 1
              in if take 1 ident \<noteq> u ''#'' \<and> ident \<noteq> u ''Status'' \<and> ident \<noteq> u ''Window''
                 then (st\<lparr>current_session := Some (cs\<lparr>s_target_nick := Some ident\<rparr>)\<rparr>, [])
                 else (st, []))
         | _ \<Rightarrow>
        (case current_session st of
           None \<Rightarrow> (st, [])
         | Some cs \<Rightarrow>
             if is_noise_line line then (st, [])
             else
               (let cleaned_line = strip_mirc_codes line
                in case re_match OTHER_USER_MSG_PATTERN cleaned_line of
                     Some (n, g) \<Rightarrow>
                       (add_message st cs
                          \<lparr> m_time = match_group g 1, m_nick = match_group g 2,
                            m_text = py_strip (match_group g 3), m_is_self = False \<rparr>, [])
                   | None \<Rightarrow>
                       (case re_match YOUR_MSG_PATTERN cleaned_line of
                          Some (n, g) \<Rightarrow>
                            (add_message st cs
                               \<lparr> m_time = match_group g 1, m_nick = match_group g 2,
                                 m_text = py_strip (match_group g 3), m_is_self = True \<rparr>, [])
                        | None \<Rightarrow> (st, [])))))))"

definition initial_state :: pstate where
  "initial_state = \<lparr> current_session = None, session_count = 0, participants = {} \<rparr>"

fun parse_loop :: "ustr \<Rightarrow> pstate \<Rightarrow> ustr list \<Rightarrow> session list" where
  "parse_loop filepath st [] = flush st"
| "parse_loop filepath st (line # rest) =
     (case step filepath st line of (st', ys) \<Rightarrow> ys @ parse_loop filepath st' rest)"

text \<open>
  Reading the file is outside the program: \<open>read_file encoding\<close> stands for what
  \<open>open(filepath, 'r', encoding=encoding, errors='replace')\<close> and \<open>readlines()\<close> do
  for one encoding, the list of lines or the exception raised. The source asks the
  decoder to replace what it cannot decode, under which the decoders of the four
  encodings do not raise; the model leaves every outcome open. \<open>parse_log_file\<close> returns
  the sessions yielded and what it printed to standard error.
\<close>

datatype io_error = UnicodeDecodeError | OSError

datatype diagnostic = Could_not_read ustr | Error_parsing ustr io_error

definition encodings :: "string list" where
  "encodings = [''utf-8'', ''cp1252'', ''latin-1'', ''iso-8859-1'']"

fun try_encodings :: "(string \<Rightarrow> io_error + ustr list) \<Rightarrow> string list \<Rightarrow> io_error + ustr list option" where
  "try_encodings read_file [] = Inr None"
| "try_encodings read_file (encoding # rest) =
     (case read_file encoding of
        Inr content \<Rightarrow> Inr (Some content)
      | Inl UnicodeDecodeError \<Rightarrow> try_encodings read_file rest
      | Inl e \<Rightarrow> Inl e)"

definition parse_log_file ::
  "(string \<Rightarrow> io_error + ustr list) \<Rightarrow> ustr \<Rightarrow> session list \<times> diagnostic list" where
  "parse_log_file read_file filepath =
     (case try_encodings read_file encodings of
        Inl e \<Rightarrow> ([], [Error_parsing filepath e])
      | Inr None \<Rightarrow> ([], [Could_not_read filepath])
      | Inr (Some content) \<Rightarrow> (parse_loop filepath initial_state content, []))"



section \<open>Notions of the specification\<close>

text \<open>
  The characters the loop counts for a buffer: each formatted line with its line feed.
\<close>

definition total_chars :: "message list \<Rightarrow> nat" where
  "total_chars buf = sum_list (map (\<lambda>m. length (format_line m @ [10])) buf)"

text \<open>
  The gap between two times of day as the specification words it: in minutes, the
  candidate moved to the next day when its minute of the day is the smaller one.
\<close>

definition minute_of_day :: "datetime \<Rightarrow> nat" where
  "minute_of_day d = 60 * dt_hour d + dt_minute d"

definition spec_gap_minutes :: "datetime \<Rightarrow> datetime \<Rightarrow> nat" where
  "spec_gap_minutes p c =
     (if minute_of_day c < minute_of_day p then minute_of_day c + 1440 - minute_of_day p
      else minute_of_day c - minute_of_day p)"

text \<open>
  Two neighbours of a chunk are within the gap when both times parse under the session
  date and lie at most \<open>TIME_GAP_MINUTES\<close> apart.
\<close>

definition gap_within :: "datetime option \<Rightarrow> message \<Rightarrow> message \<Rightarrow> bool" where
  "gap_within sd a b =
     (case (parse_time (m_time a) sd, parse_time (m_time b) sd) of
        (Inr (Some p), Inr (Some q)) \<Rightarrow> spec_gap_minutes p q \<le> TIME_GAP_MINUTES
      | _ \<Rightarrow> True)"


text \<open>
  The Text Normalizer as the specification words it: the codes and glyphs removed, and
  nothing else.
\<close>

definition spec_normalize :: "ustr \<Rightarrow> ustr" where
  "spec_normalize text0 =
     re_sub MIRC_DECORATIONS
       (foldl (\<lambda>t code. remove_char code t) (re_sub MIRC_COLOR_PATTERN text0)
          [MIRC_BOLD, MIRC_ITALIC, MIRC_UNDERLINE, MIRC_STRIKETHROUGH, MIRC_REVERSE, MIRC_RESET])"

definition is_control_code :: "nat \<Rightarrow> bool" where
  "is_control_code x \<longleftrightarrow>
     x = 3 \<or> x \<in> set [MIRC_BOLD, MIRC_ITALIC, MIRC_UNDERLINE, MIRC_STRIKETHROUGH,
                        MIRC_REVERSE, MIRC_RESET]"

text \<open>
  The set of nicks the parser keeps is the set of nicks of the open session's messages.
\<close>

definition nicks_tracked :: "pstate \<Rightarrow> bool" where
  "nicks_tracked st \<longleftrightarrow>
     (case current_session st of
        None \<Rightarrow> True
      | Some cs \<Rightarrow> participants st = set (map m_nick (s_messages cs)))"

text \<open>The state of the parser after the lines of a file, before the last flush.\<close>

fun final_state :: "ustr \<Rightarrow> pstate \<Rightarrow> ustr list \<Rightarrow> pstate" where
  "final_state filepath st [] = st"
| "final_state filepath st (line # rest) = final_state filepath (fst (step filepath st line)) rest"


section \<open>Example inputs\<close>

text \<open>The start 2003-12-09 18:27:34 and the same time on 9999-12-31.\<close>

definition example_start :: datetime where
  "example_start =
     \<lparr>dt_ordinal = 731558, dt_hour = 18, dt_minute = 27, dt_second = 34, dt_microsecond = 0\<rparr>"

definition last_day :: datetime where
  "last_day = example_start\<lparr>dt_ordinal := MAXORDINAL\<rparr>"

definition example_message :: "string \<Rightarrow> string \<Rightarrow> ustr \<Rightarrow> message" where
  "example_message t n x = \<lparr>m_time = u t, m_nick = u n, m_text = x, m_is_self = False\<rparr>"

definition example_session :: "datetime option \<Rightarrow> message list \<Rightarrow> session" where
  "example_session start msgs =
     \<lparr>s_session_id = u ''bob_0001'', s_source_file = u ''bob.log'', s_channel = None,
      s_target_nick = Some (u ''bob''), s_start_time = start, s_end_time = None,
      s_participants = sorted_distinct (map m_nick msgs), s_messages = msgs, s_network = None\<rparr>"

definition overnight :: "message list" where
  "overnight = [example_message ''23:55'' ''alice'' (u ''good night''),
                example_message ''00:10'' ''bob'' (u ''still here'')]"

definition gapped :: "message list" where
  "gapped = [example_message ''10:00'' ''alice'' (u ''a''),
             example_message ''10:01'' ''bob'' (u ''b''),
             example_message ''10:02'' ''alice'' (u ''c''),
             example_message ''11:00'' ''bob'' (u ''d''),
             example_message ''12:00'' ''alice'' (u ''e''),
             example_message ''12:01'' ''bob'' (u ''f''),
             example_message ''12:02'' ''alice'' (u ''g'')]"

definition oversized :: "message list" where
  "oversized = [example_message ''10:00'' ''a'' (replicate 8000 97)]"

definition huge_hour :: "message list" where
  "huge_hour = [example_message [] ''alice'' (u ''a''),
                example_message ''2147483648:00'' ''bob'' (u ''b'')]"

text \<open>The four lines of the round trip, as \<open>readlines\<close> returns them.\<close>

definition start_line :: ustr where
  "start_line = u ''Session Start: Tue Dec 09 18:27:34 2003'' @ [10]"

definition alice_line :: ustr where
  "alice_line = u ''[18:30] [alice] hello'' @ [10]"

definition bob_line :: ustr where
  "bob_line = u ''[19:05] (bob) hi there'' @ [10]"

definition close_line :: ustr where
  "close_line = u ''Session Close: Tue Dec 09 19:06:00 2003'' @ [10]"

definition example_lines :: "ustr list" where
  "example_lines = [start_line, alice_line, bob_line, close_line]"

text \<open>
  A join announcement in the shape of a message: \<open>[18:31] [carol] * joins\<close>, with the
  star U+2605 for the asterisk.
\<close>

definition join_line :: ustr where
  "join_line = u ''[18:31] [carol] '' @ [9733] @ u '' joins'' @ [10]"

definition cp1252_only :: "string \<Rightarrow> io_error + ustr list" where
  "cp1252_only encoding =
     (if encoding = ''cp1252'' then Inr example_lines else Inl UnicodeDecodeError)"

definition unreadable :: "string \<Rightarrow> io_error + ustr list" where
  "unreadable encoding = Inl UnicodeDecodeError"

text \<open>
  The session of the round trip after its first line, for a file \<open>fp\<close>, its two
  messages, and the end 2003-12-09 19:06:00.
\<close>

definition example_opened :: "ustr \<Rightarrow> nat \<Rightarrow> session" where
  "example_opened fp count =
     \<lparr> s_session_id = path_stem fp @ u ''_'' @ zero_pad 4 count,
       s_source_file = fp,
       s_channel = fst (extract_channel_info fp),
       s_target_nick = fst (snd (extract_channel_info fp)),
       s_start_time = Some example_start,
       s_end_time = None,
       s_participants = [],
       s_messages = [],
       s_network = snd (snd (extract_channel_info fp)) \<rparr>"

definition hello_alice :: message where
  "hello_alice = \<lparr>m_time = u ''18:30'', m_nick = u ''alice'', m_text = u ''hello'', m_is_self = False\<rparr>"

definition hi_bob :: message where
  "hi_bob = \<lparr>m_time = u ''19:05'', m_nick = u ''bob'', m_text = u ''hi there'', m_is_self = True\<rparr>"

definition example_end :: datetime where
  "example_end = example_start\<lparr>dt_hour := 19, dt_minute := 6, dt_second := 0\<rparr>"

definition utf8_file :: "string \<Rightarrow> io_error + ustr list" where
  "utf8_file encoding = (if encoding = ''utf-8'' then Inr example_lines else Inl OSError)"

definition bob_log :: ustr where
  "bob_log = u ''logs/bob.EFnet.log''"

text \<open>The state after the four lines, begun in any state, and what the lines yield.\<close>

definition after_example :: "ustr \<Rightarrow> pstate \<Rightarrow> pstate" where
  "after_example fp st =
     \<lparr>current_session = Some ((example_opened fp (Suc (session_count st)))
          \<lparr>s_end_time := Some example_end, s_messages := [hello_alice, hi_bob]\<rparr>),
      session_count = Suc (session_count st),
      participants = {u ''bob'', u ''alice''}\<rparr>"


section \<open>The loop of chunk\_session\<close>

lemmas eval_chunker =
  chunk_session_def chunk_trace_def chunk_buffers_def should_split_def parse_time_def
  py_int_def strip_chars_def int_space_def py_isspace_def digit_value_def digits_value_def
  replace_hour_minute_def fits_c_int_def dt_less_def add_one_day_def dt_sub_def dt_micros_def
  timedelta_minutes_def TIME_GAP_MINUTES_def MAX_MESSAGES_PER_CHUNK_def MAX_CHARS_PER_CHUNK_def
  MAXORDINAL_def format_line_def u_def example_start_def last_day_def example_message_def
  example_session_def overnight_def gapped_def oversized_def huge_hour_def Let_def

lemma emit_chunk_fields:
  "c_chunk_index (emit_chunk S buf i) = i"
  "c_message_count (emit_chunk S buf i) = length buf"
  "c_text (emit_chunk S buf i) = format_chunk_text buf"
  by (simp_all add: emit_chunk_def split: prod.split)

lemma chunk_loop_index_nth:
  "chunk_loop S cur chars idx msgs = (ys, e) \<Longrightarrow> i < length ys \<Longrightarrow>
     c_chunk_index (snd (ys ! i)) = idx + i"
proof (induction msgs arbitrary: cur chars idx ys e i)
  case Nil
  then show ?case by (auto simp: emit_chunk_fields split: if_splits)
next
  case (Cons msg rest)
  then show ?case
    by (cases i) (auto simp: Let_def emit_chunk_fields split: sum.splits if_splits prod.splits)
qed

lemma chunk_loop_indices:
  "chunk_loop S cur chars idx msgs = (ys, e) \<Longrightarrow>
     map (c_chunk_index \<circ> snd) ys = [idx ..< idx + length ys]"
  by (rule nth_equalityI) (simp_all add: chunk_loop_index_nth)

lemma chunk_loop_emitted:
  "chunk_loop S cur chars idx msgs = (ys, e) \<Longrightarrow> (buf, c) \<in> set ys \<Longrightarrow>
     buf \<noteq> [] \<and> c = emit_chunk S buf (c_chunk_index c)"
proof (induction msgs arbitrary: cur chars idx ys e)
  case Nil
  then show ?case by (auto simp: emit_chunk_fields split: if_splits)
next
  case (Cons msg rest)
  then show ?case
    by (fastforce simp: Let_def emit_chunk_fields split: sum.splits if_splits prod.splits)
qed

lemma chunk_loop_prefix:
  "chunk_loop S cur chars idx msgs = (ys, e) \<Longrightarrow>
     (\<exists>rest. cur @ msgs = concat (map fst ys) @ rest) \<and>
     (e = None \<longrightarrow> concat (map fst ys) = cur @ msgs)"
proof (induction msgs arbitrary: cur chars idx ys e)
  case Nil
  then show ?case by (auto split: if_splits)
next
  case (Cons msg rest)
  then show ?case
    by (fastforce simp: Let_def split: sum.splits if_splits prod.splits)
qed

lemma chunk_loop_count:
  "chunk_loop S cur chars idx msgs = (ys, e) \<Longrightarrow> length cur \<le> MAX_MESSAGES_PER_CHUNK \<Longrightarrow>
     (buf, c) \<in> set ys \<Longrightarrow> length buf \<le> MAX_MESSAGES_PER_CHUNK"
proof (induction msgs arbitrary: cur chars idx ys e)
  case Nil
  then show ?case by (auto split: if_splits)
next
  case (Cons msg rest)
  then show ?case
    by (fastforce simp: Let_def MAX_MESSAGES_PER_CHUNK_def split: sum.splits if_splits prod.splits)
qed

text \<open>
  The character budget: \<open>current_chars\<close> is the count of the buffer, and a buffer of
  two or more messages has passed the test against \<open>MAX_CHARS_PER_CHUNK\<close>.
\<close>

lemma chunk_loop_chars:
  "chunk_loop S cur chars idx msgs = (ys, e) \<Longrightarrow> chars = total_chars cur \<Longrightarrow>
     (2 \<le> length cur \<longrightarrow> total_chars cur \<le> MAX_CHARS_PER_CHUNK) \<Longrightarrow>
     (buf, c) \<in> set ys \<Longrightarrow> 2 \<le> length buf \<Longrightarrow> total_chars buf \<le> MAX_CHARS_PER_CHUNK"
proof (induction msgs arbitrary: cur chars idx ys e)
  case Nil
  then show ?case by (auto split: if_splits)
next
  case (Cons msg rest)
  let ?mc = "length (format_line msg @ [10])"
  let ?d = "if cur \<noteq> [] then should_split (last cur) msg (s_start_time S) else Inr False"
  show ?case
  proof (cases ?d)
    case (Inl e')
    with Cons.prems show ?thesis by simp
  next
    case (Inr gap)
    let ?new = "(gap \<or> length cur \<ge> MAX_MESSAGES_PER_CHUNK
                  \<or> chars + ?mc > MAX_CHARS_PER_CHUNK) \<and> cur \<noteq> []"
    show ?thesis
    proof (cases ?new)
      case True
      then obtain ys' where loop: "chunk_loop S [msg] ?mc (idx + 1) rest = (ys', e)"
        and ys: "ys = (cur, emit_chunk S cur idx) # ys'"
        using Cons.prems(1) Inr by (auto simp: Let_def split: prod.splits)
      from Cons.prems(4) ys consider "buf = cur" | "(buf, c) \<in> set ys'" by auto
      then show ?thesis
      proof cases
        case 1
        with Cons.prems(3,5) show ?thesis by simp
      next
        case 2
        show ?thesis
          by (rule Cons.IH [OF loop _ _ 2 Cons.prems(5)]) (simp_all add: total_chars_def)
      qed
    next
      case False
      then have loop: "chunk_loop S (cur @ [msg]) (chars + ?mc) idx rest = (ys, e)"
        using Cons.prems(1) Inr by (auto simp: Let_def)
      have tc: "chars + ?mc = total_chars (cur @ [msg])"
        using Cons.prems(2) by (simp add: total_chars_def)
      have bound: "2 \<le> length (cur @ [msg]) \<longrightarrow> total_chars (cur @ [msg]) \<le> MAX_CHARS_PER_CHUNK"
        using False tc by (cases "cur = []") auto
      show ?thesis
        by (rule Cons.IH [OF loop tc bound Cons.prems(4,5)])
    qed
  qed
qed

lemma chunk_loop_gaps:
  "chunk_loop S cur chars idx msgs = (ys, e) \<Longrightarrow>
     successively (\<lambda>a b. should_split a b (s_start_time S) = Inr False) cur \<Longrightarrow>
     (buf, c) \<in> set ys \<Longrightarrow>
     successively (\<lambda>a b. should_split a b (s_start_time S) = Inr False) buf"
proof (induction msgs arbitrary: cur chars idx ys e)
  case Nil
  then show ?case by (auto split: if_splits)
next
  case (Cons msg rest)
  then show ?case
    by (fastforce simp: Let_def successively_append_iff split: sum.splits if_splits prod.splits)
qed

lemma join_length:
  "xs \<noteq> [] \<Longrightarrow> Suc (length (join [10] xs)) = sum_list (map (\<lambda>x. Suc (length x)) xs)"
  by (induction xs rule: induct_list012) auto

lemma format_chunk_text_length:
  "buf \<noteq> [] \<Longrightarrow> Suc (length (format_chunk_text buf)) = total_chars buf"
  using join_length [of "map format_line buf"]
  by (simp add: format_chunk_text_def total_chars_def comp_def)


section \<open>The time gap\<close>

lemma parse_time_no_date: "parse_time t None = Inr None"
  by (simp add: parse_time_def)

lemma parse_time_SomeD:
  assumes "parse_time t (Some d) = Inr (Some p)"
  shows "\<exists>h m. h \<le> 23 \<and> m \<le> 59 \<and> p = d\<lparr>dt_hour := h, dt_minute := m\<rparr>"
proof -
  from assms obtain hour minute where "replace_hour_minute d hour minute = Inr (Some p)"
    by (auto simp: parse_time_def split: if_splits list.splits option.splits)
  then have "0 \<le> hour \<and> hour \<le> 23 \<and> 0 \<le> minute \<and> minute \<le> 59
      \<and> p = d\<lparr>dt_hour := nat hour, dt_minute := nat minute\<rparr>"
    by (auto simp: replace_hour_minute_def split: if_splits)
  then show ?thesis by (intro exI [of _ "nat hour"] exI [of _ "nat minute"]) auto
qed

text \<open>
  What \<open>should_split\<close> computes on two times that parse: the datetime arithmetic of the
  code is the minute arithmetic of the specification, up to the day that cannot be added.
\<close>

lemma should_split_parsed:
  assumes p: "parse_time (m_time prev) (Some d) = Inr (Some p)"
    and c: "parse_time (m_time cur) (Some d) = Inr (Some c)"
  shows "should_split prev cur (Some d) =
     (if minute_of_day c < minute_of_day p \<and> MAXORDINAL \<le> dt_ordinal d then Inl OverflowError
      else Inr (spec_gap_minutes p c > TIME_GAP_MINUTES))"
proof -
  from parse_time_SomeD [OF p] obtain h1 m1
    where 1: "h1 \<le> 23" "m1 \<le> 59" "p = d\<lparr>dt_hour := h1, dt_minute := m1\<rparr>" by blast
  from parse_time_SomeD [OF c] obtain h2 m2
    where 2: "h2 \<le> 23" "m2 \<le> 59" "c = d\<lparr>dt_hour := h2, dt_minute := m2\<rparr>" by blast
  have less: "dt_less (d\<lparr>dt_hour := h2, dt_minute := m2\<rparr>) (d\<lparr>dt_hour := h1, dt_minute := m1\<rparr>)
      \<longleftrightarrow> 60 * h2 + m2 < 60 * h1 + m1"
    using 1 2 by (auto simp: dt_less_def)
  show ?thesis
  proof (cases "60 * h2 + m2 < 60 * h1 + m1")
    case True
    have "(0 < 84600000000 + (3600000000 * int h2 + (60000000 * int m2 +
             (- (3600000000 * int h1) - 60000000 * int m1))))
          \<longleftrightarrow> 30 < 60 * h2 + m2 + 1440 - (60 * h1 + m1)"
      using True 1 2 by arith
    with True 1 2 show ?thesis
      by (simp add: should_split_def p c less add_one_day_def spec_gap_minutes_def dt_sub_def
          dt_micros_def timedelta_minutes_def TIME_GAP_MINUTES_def minute_of_day_def)
  next
    case False
    have "(1800000000 < 3600000000 * int h2 + (60000000 * int m2 +
             (- (3600000000 * int h1) - 60000000 * int m1)))
          \<longleftrightarrow> 30 < 60 * h2 + m2 - (60 * h1 + m1)"
      using False 1 2 by arith
    with False 1 2 show ?thesis
      by (simp add: should_split_def p c less spec_gap_minutes_def dt_sub_def
          dt_micros_def timedelta_minutes_def TIME_GAP_MINUTES_def minute_of_day_def)
  qed
qed

lemma should_split_False_gap:
  assumes f: "should_split a b sd = Inr False"
  shows "gap_within sd a b"
proof (cases sd)
  case None
  then show ?thesis by (simp add: gap_within_def parse_time_no_date)
next
  case (Some d)
  have "spec_gap_minutes p q \<le> TIME_GAP_MINUTES"
    if "parse_time (m_time a) (Some d) = Inr (Some p)"
      and "parse_time (m_time b) (Some d) = Inr (Some q)" for p q
    using should_split_parsed [OF that] f Some by (simp split: if_splits)
  then show ?thesis
    by (simp add: gap_within_def Some split: sum.splits option.splits)
qed

lemma should_split_total:
  assumes "\<And>d. sd = Some d \<Longrightarrow> dt_ordinal d < MAXORDINAL"
    and "\<And>e. parse_time (m_time a) sd \<noteq> Inl e" and "\<And>e. parse_time (m_time b) sd \<noteq> Inl e"
  shows "\<exists>r. should_split a b sd = Inr r"
proof (cases sd)
  case None
  then show ?thesis by (auto simp: should_split_def parse_time_no_date)
next
  case (Some d)
  obtain x where x: "parse_time (m_time a) (Some d) = Inr x"
    using assms(2) Some by (cases "parse_time (m_time a) (Some d)") auto
  obtain y where y: "parse_time (m_time b) (Some d) = Inr y"
    using assms(3) Some by (cases "parse_time (m_time b) (Some d)") auto
  show ?thesis
  proof (cases "x = None \<or> y = None")
    case True
    then show ?thesis using x y Some by (auto simp: should_split_def split: option.splits)
  next
    case False
    then obtain p c where "x = Some p" "y = Some c" by auto
    with x y have "should_split a b (Some d) = Inr (spec_gap_minutes p c > TIME_GAP_MINUTES)"
      using should_split_parsed [of a d p b c] assms(1) [OF Some] by simp
    with Some show ?thesis by simp
  qed
qed

lemma chunk_loop_total:
  assumes "\<And>d. s_start_time S = Some d \<Longrightarrow> dt_ordinal d < MAXORDINAL"
    and "\<And>m e. m \<in> set cur \<union> set msgs \<Longrightarrow> parse_time (m_time m) (s_start_time S) \<noteq> Inl e"
  shows "snd (chunk_loop S cur chars idx msgs) = None"
  using assms(2)
proof (induction msgs arbitrary: cur chars idx)
  case Nil
  then show ?case by simp
next
  case (Cons msg rest)
  have "\<exists>r. should_split (last cur) msg (s_start_time S) = Inr r" if "cur \<noteq> []"
    using that by (intro should_split_total assms(1) Cons.prems) auto
  then obtain gap where
    gap: "(if cur \<noteq> [] then should_split (last cur) msg (s_start_time S) else Inr False) = Inr gap"
    by (cases "cur = []") auto
  have "snd (chunk_loop S [msg] k (idx + 1) rest) = None" for k
    by (rule Cons.IH) (use Cons.prems in auto)
  then have 1: "\<exists>ys. chunk_loop S [msg] k (idx + 1) rest = (ys, None)" for k
    by (metis prod.collapse)
  have 2: "snd (chunk_loop S (cur @ [msg]) k idx rest) = None" for k
    by (rule Cons.IH) (use Cons.prems in auto)
  show ?case
  proof (cases "(gap \<or> length cur \<ge> MAX_MESSAGES_PER_CHUNK
                  \<or> chars + length (format_line msg @ [10]) > MAX_CHARS_PER_CHUNK) \<and> cur \<noteq> []")
    case True
    from 1 obtain ys
      where "chunk_loop S [msg] (length (format_line msg @ [10])) (idx + 1) rest = (ys, None)"
      by blast
    with True show ?thesis
      unfolding chunk_loop.simps gap by (simp add: Let_def)
  next
    case False
    with 2 show ?thesis
      unfolding chunk_loop.simps gap by (auto simp: Let_def)
  qed
qed

lemma chunk_trace_zip:
  "zip (chunk_buffers S) (fst (chunk_session S)) = fst (chunk_trace S)"
  by (simp add: chunk_buffers_def chunk_session_def zip_map_fst_snd split: prod.splits)

lemma chunk_trace_cases:
  obtains "s_messages S = []" "chunk_trace S = ([], None)"
  | "s_messages S \<noteq> []" "chunk_trace S = chunk_loop S [] 0 0 (s_messages S)"
  by (cases "s_messages S = []") (simp_all add: chunk_trace_def)


section \<open>process\_sessions\<close>

lemma write_chunks_run:
  "written (write_chunks m cs r) = written r @ filter (\<lambda>c. m \<le> int (c_message_count c)) cs"
  "total_chunks (write_chunks m cs r) =
     total_chunks r + length (filter (\<lambda>c. m \<le> int (c_message_count c)) cs)"
  "total_messages (write_chunks m cs r) =
     total_messages r + sum_list (map c_message_count (filter (\<lambda>c. m \<le> int (c_message_count c)) cs))"
  by (induction cs arbitrary: r) simp_all

lemma process_loop_run:
  "process_loop m ss r = (r', e) \<Longrightarrow>
     written r' = written r @ filter (\<lambda>c. m \<le> int (c_message_count c)) (yielded_chunks ss) \<and>
     total_chunks r' =
       total_chunks r + length (filter (\<lambda>c. m \<le> int (c_message_count c)) (yielded_chunks ss)) \<and>
     total_messages r' = total_messages r +
        sum_list (map c_message_count (filter (\<lambda>c. m \<le> int (c_message_count c)) (yielded_chunks ss)))"
proof (induction ss arbitrary: r r' e)
  case Nil
  then show ?case by simp
next
  case (Cons s ss)
  then show ?case
    by (fastforce simp: Let_def write_chunks_run split: prod.splits option.splits)
qed



section \<open>Substitution and the Text Normalizer\<close>


lemma re_step_mono:
  "(n', s', g') \<in> set (re_step r (n, s, g)) \<Longrightarrow> n \<le> n'"
proof (induction r arbitrary: n s g n' s' g')
  case (Chr p)
  then show ?case by (auto split: list.splits if_splits)
next
  case (Many p)
  then show ?case by auto
next
  case (Seq a b)
  then show ?case by fastforce
next
  case (Alt a b)
  then show ?case by fastforce
next
  case (Grp i a)
  then show ?case by fastforce
qed (auto split: if_splits)

lemma sub_scan_subseq: "subseq (sub_scan r pos k s) s"
  by (induction r pos k s rule: sub_scan.induct) (auto split: option.splits)

lemma sub_scan_removes:
  assumes "\<And>pos c cs. p c \<Longrightarrow> \<exists>n g. re_match_at r pos (c # cs) = Some (n, g) \<and> pos < n"
  shows "x \<in> set (sub_scan r pos k s) \<Longrightarrow> \<not> p x"
proof (induction s arbitrary: pos k)
  case Nil
  then show ?case by simp
next
  case (Cons c cs)
  show ?case
  proof (cases k)
    case (Suc j)
    with Cons show ?thesis by simp
  next
    case 0
    show ?thesis
    proof (cases "p c")
      case True
      then obtain n g where "re_match_at r pos (c # cs) = Some (n, g)" "pos < n"
        using assms by blast
      with Cons 0 show ?thesis by simp
    next
      case False
      with Cons 0 show ?thesis
        by (auto split: option.splits if_splits)
    qed
  qed
qed

lemma sub_scan_id:
  assumes "\<And>pos c cs. c \<in> set s \<Longrightarrow> re_match_at r pos (c # cs) = None"
  shows "sub_scan r pos 0 s = s"
  using assms by (induction s arbitrary: pos) auto


lemma color_match:
  "\<exists>n g. re_match_at MIRC_COLOR_PATTERN pos (3 # cs) = Some (n, g) \<and> pos < n"
proof -
  let ?rest = "seqs [Opt (Grp 1 (seqs [Chr is_decimal, Opt (Chr is_decimal),
      Opt (Grp 2 (seqs [lit '','', Chr is_decimal, Opt (Chr is_decimal)]))]))]"
  have step: "re_step MIRC_COLOR_PATTERN (pos, 3 # cs, Map.empty)
      = re_step ?rest (pos + 1, cs, Map.empty)"
    by (simp add: MIRC_COLOR_PATTERN_def seqs_def)
  have "(pos + 1, cs, Map.empty) \<in> set (re_step ?rest (pos + 1, cs, Map.empty))"
    by (simp add: seqs_def Opt_def)
  then obtain st sts where l: "re_step ?rest (pos + 1, cs, Map.empty) = st # sts"
    by (cases "re_step ?rest (pos + 1, cs, Map.empty)") auto
  obtain n s g where st: "st = (n, s, g)" by (cases st)
  have "(n, s, g) \<in> set (re_step ?rest (pos + 1, cs, Map.empty))"
    using l st by simp
  then have "pos + 1 \<le> n" by (rule re_step_mono)
  moreover have "re_match_at MIRC_COLOR_PATTERN pos (3 # cs) = Some (n, g)"
    unfolding re_match_at_def step l st by simp
  ultimately show ?thesis by auto
qed

lemma color_no_match: "c \<noteq> 3 \<Longrightarrow> re_match_at MIRC_COLOR_PATTERN pos (c # cs) = None"
  by (simp add: re_match_at_def MIRC_COLOR_PATTERN_def seqs_def)

lemma decoration_match:
  "is_decoration c \<Longrightarrow> \<exists>n g. re_match_at MIRC_DECORATIONS pos (c # cs) = Some (n, g) \<and> pos < n"
  by (simp add: re_match_at_def MIRC_DECORATIONS_def Plus_def rev_nth hd_rev last_map split: list.splits)

lemma decoration_no_match:
  "\<not> is_decoration c \<Longrightarrow> re_match_at MIRC_DECORATIONS pos (c # cs) = None"
  by (simp add: re_match_at_def MIRC_DECORATIONS_def Plus_def)


lemma subseq_subset: "subseq xs ys \<Longrightarrow> set xs \<subseteq> set ys"
  by (induction rule: list_emb.induct) auto

lemma rstrip_prefix: "prefix (rev (dropWhile p (rev xs))) xs"
  using suffix_dropWhile [of p "rev xs"] by (simp add: suffix_to_prefix)

lemma strip_chars_subseq: "subseq (strip_chars p s) s"
proof -
  have "subseq (strip_chars p s) (dropWhile p s)"
    unfolding strip_chars_def by (intro prefix_imp_subseq rstrip_prefix)
  also have "subseq (dropWhile p s) s"
    by (intro suffix_imp_subseq suffix_dropWhile)
  finally show ?thesis .
qed

lemma rstrip_last: "rev (dropWhile p (rev xs)) \<noteq> [] \<Longrightarrow> \<not> p (last (rev (dropWhile p (rev xs))))"
  using hd_dropWhile [of p "rev xs"] by (simp add: last_rev)

lemma rstrip_hd:
  assumes "xs \<noteq> [] \<longrightarrow> \<not> p (hd xs)" and "rev (dropWhile p (rev xs)) \<noteq> []"
  shows "\<not> p (hd (rev (dropWhile p (rev xs))))"
proof -
  from assms(2) have "xs \<noteq> []" by auto
  from rstrip_prefix [of p xs] obtain zs where "xs = rev (dropWhile p (rev xs)) @ zs"
    by (auto simp: prefix_def)
  then have "hd xs = hd (rev (dropWhile p (rev xs)))"
    using assms(2) by (metis hd_append2)
  with assms(1) \<open>xs \<noteq> []\<close> show ?thesis by simp
qed

lemma strip_chars_trimmed:
  "strip_chars p s \<noteq> [] \<Longrightarrow> \<not> p (hd (strip_chars p s)) \<and> \<not> p (last (strip_chars p s))"
  unfolding strip_chars_def
  using rstrip_hd [of "dropWhile p s" p] rstrip_last [of p "dropWhile p s"] hd_dropWhile [of p s]
  by blast

lemma spec_normalize_subseq: "subseq (spec_normalize t) t"
proof -
  have f: "subseq (foldl (\<lambda>t code. remove_char code t) x cs) x" for x cs
  proof (induction cs arbitrary: x)
    case Nil
    show ?case by simp
  next
    case (Cons c cs)
    have "subseq (foldl (\<lambda>t code. remove_char code t) (remove_char c x) cs) (remove_char c x)"
      by (rule Cons.IH)
    also have "subseq (remove_char c x) x"
      by (simp add: remove_char_def)
    finally show ?case by simp
  qed
  have "subseq (spec_normalize t) (foldl (\<lambda>t code. remove_char code t) (re_sub MIRC_COLOR_PATTERN t)
          [MIRC_BOLD, MIRC_ITALIC, MIRC_UNDERLINE, MIRC_STRIKETHROUGH, MIRC_REVERSE, MIRC_RESET])"
    unfolding spec_normalize_def re_sub_def by (rule sub_scan_subseq)
  also have "subseq \<dots> (re_sub MIRC_COLOR_PATTERN t)"
    by (rule f)
  also have "subseq \<dots> t"
    unfolding re_sub_def by (rule sub_scan_subseq)
  finally show ?thesis .
qed

lemma spec_normalize_clean:
  assumes "x \<in> set (spec_normalize t)"
  shows "\<not> is_control_code x \<and> \<not> is_decoration x"
proof -
  let ?a = "re_sub MIRC_COLOR_PATTERN t"
  let ?b = "foldl (\<lambda>t code. remove_char code t) ?a
          [MIRC_BOLD, MIRC_ITALIC, MIRC_UNDERLINE, MIRC_STRIKETHROUGH, MIRC_REVERSE, MIRC_RESET]"
  have d: "\<not> is_decoration x"
    using assms unfolding spec_normalize_def re_sub_def
    by (rule sub_scan_removes [where p = is_decoration, rotated]) (rule decoration_match)
  have "subseq (spec_normalize t) ?b"
    unfolding spec_normalize_def re_sub_def by (rule sub_scan_subseq)
  with assms have b: "x \<in> set ?b"
    using subseq_subset by blast
  then have codes: "x \<notin> set [MIRC_BOLD, MIRC_ITALIC, MIRC_UNDERLINE, MIRC_STRIKETHROUGH,
                        MIRC_REVERSE, MIRC_RESET]" and a: "x \<in> set ?a"
    by (auto simp: remove_char_def)
  have "\<not> (x = 3)"
    using a unfolding re_sub_def
    by (rule sub_scan_removes [where p = "\<lambda>c. c = 3", rotated]) (use color_match in auto)
  with codes d show ?thesis
    by (simp add: is_control_code_def)
qed

lemma spec_normalize_id:
  assumes "\<forall>x \<in> set t. \<not> is_control_code x \<and> \<not> is_decoration x"
  shows "spec_normalize t = t"
proof -
  have a: "re_sub MIRC_COLOR_PATTERN t = t"
    unfolding re_sub_def
    by (rule sub_scan_id) (use assms in \<open>auto simp: is_control_code_def intro: color_no_match\<close>)
  have b: "foldl (\<lambda>t code. remove_char code t) t
          [MIRC_BOLD, MIRC_ITALIC, MIRC_UNDERLINE, MIRC_STRIKETHROUGH, MIRC_REVERSE, MIRC_RESET] = t"
    using assms by (simp add: remove_char_def is_control_code_def filter_id_conv)
  have c: "re_sub MIRC_DECORATIONS t = t"
    unfolding re_sub_def
    by (rule sub_scan_id) (use assms in \<open>auto intro: decoration_no_match\<close>)
  show ?thesis
    unfolding spec_normalize_def a b c by (rule refl)
qed

lemmas eval_strip =
  strip_mirc_codes_def spec_normalize_def re_sub_def re_match_at_def re_match_def
  MIRC_COLOR_PATTERN_def MIRC_DECORATIONS_def MIRC_BOLD_def MIRC_ITALIC_def MIRC_UNDERLINE_def
  MIRC_STRIKETHROUGH_def MIRC_REVERSE_def MIRC_RESET_def remove_char_def is_decoration_def
  decoration_glyphs_def py_strip_def strip_chars_def py_isspace_def seqs_def Plus_def Opt_def
  lit_def is_decimal_def digit_value_def u_def Let_def



section \<open>Lines and sessions\<close>

lemmas eval_re =
  re_match_at_def re_match_def seqs_def Plus_def Opt_def lit_def lit_i_def ci_eq_def sre_lower_def
  any_char_def in_range_def is_decimal_def digit_value_def py_isspace_def u_def match_group_def Let_def

text \<open>A line that matches one of the three session patterns begins with \<open>S\<close>.\<close>

lemma session_patterns_need_S:
  assumes "line = [] \<or> hd line \<noteq> 83"
  shows "re_match SESSION_START_PATTERN line = None"
    and "re_match SESSION_CLOSE_PATTERN line = None"
    and "re_match SESSION_IDENT_PATTERN line = None"
  using assms
  by (cases line; simp add: eval_re SESSION_START_PATTERN_def SESSION_CLOSE_PATTERN_def
        SESSION_IDENT_PATTERN_def)+

lemma strip_chars_keeps_head:
  assumes "\<not> p c"
  shows "\<exists>t. strip_chars p (c # s) = c # t"
proof -
  have "dropWhile p (rev s @ [c]) = dropWhile p (rev s) @ [c]"
    using assms by (simp add: dropWhile_append3)
  then show ?thesis
    using assms by (simp add: strip_chars_def)
qed

lemma strip_mirc_codes_S: "\<exists>t. strip_mirc_codes (83 # rest) = 83 # t"
proof -
  have "\<exists>t. spec_normalize (83 # rest) = 83 # t"
    by (simp add: eval_strip)
  then obtain t where "spec_normalize (83 # rest) = 83 # t" ..
  moreover have "strip_mirc_codes (83 # rest) = py_strip (spec_normalize (83 # rest))"
    by (simp add: strip_mirc_codes_def spec_normalize_def Let_def)
  moreover have "\<not> py_isspace 83"
    by (simp add: py_isspace_def)
  ultimately show ?thesis
    using strip_chars_keeps_head [of py_isspace 83 t] by (simp add: py_strip_def)
qed

lemma no_noise_pattern_S: "\<not> list_ex (\<lambda>pattern. re_match pattern (83 # t) \<noteq> None) NOISE_PATTERNS"
  by (simp add: NOISE_PATTERNS_def eval_re is_bullet_def)

lemma noise_not_S: "is_noise_line line \<Longrightarrow> line = [] \<or> hd line \<noteq> 83"
proof (rule ccontr)
  assume n: "is_noise_line line" and "\<not> (line = [] \<or> hd line \<noteq> 83)"
  then obtain rest where "line = 83 # rest"
    by (cases line) auto
  with strip_mirc_codes_S [of rest] no_noise_pattern_S n show False
    by (auto simp: is_noise_line_def Let_def)
qed

lemma step_noise:
  assumes "is_noise_line (rstrip_chars (\<lambda>x. x = 10 \<or> x = 13) line)"
  shows "step fp st line = (st, [])"
proof -
  let ?l = "rstrip_chars (\<lambda>x. x = 10 \<or> x = 13) line"
  from noise_not_S [OF assms] have "?l = [] \<or> hd ?l \<noteq> 83" .
  note none = session_patterns_need_S [OF this]
  show ?thesis
    using assms by (simp add: step_def none case_prod_beta Let_def split: option.splits)
qed


section \<open>The session builder\<close>

lemma step_shape:
  "(\<exists>S0 n. step fp st line = (\<lparr>current_session = Some S0, session_count = n, participants = {}\<rparr>, flush st)
       \<and> s_messages S0 = [])
   \<or> (\<exists>cs cs'. current_session st = Some cs \<and> s_messages cs' = s_messages cs
         \<and> step fp st line = (st\<lparr>current_session := Some cs'\<rparr>, []))
   \<or> step fp st line = (st, [])
   \<or> (\<exists>cs msg. current_session st = Some cs \<and> step fp st line = (add_message st cs msg, []))"
proof -
  let ?l = "rstrip_chars (\<lambda>x. x = 10 \<or> x = 13) line"
  obtain channel target network where e: "extract_channel_info fp = (channel, target, network)"
    by (cases "extract_channel_info fp")
  show ?thesis
  proof (cases "re_match SESSION_START_PATTERN ?l")
    case (Some a)
    then show ?thesis
      by (cases a) (simp add: step_def e Let_def)
  next
    case start: None
    show ?thesis
    proof (cases "current_session st")
      case None
      then have "step fp st line = (st, [])"
        by (simp add: step_def e Let_def start split: option.splits)
      then show ?thesis by simp
    next
      case (Some cs)
      show ?thesis
      proof (cases "re_match SESSION_CLOSE_PATTERN ?l")
        case close: (Some a)
        obtain n g where a: "a = (n, g)" by (cases a)
        have "step fp st line
            = (st\<lparr>current_session := Some (cs\<lparr>s_end_time := parse_datetime (match_group g 1)\<rparr>)\<rparr>, [])"
          by (simp add: step_def e Let_def start Some close a)
        with Some have "\<exists>cs cs'. current_session st = Some cs \<and> s_messages cs' = s_messages cs
            \<and> step fp st line = (st\<lparr>current_session := Some cs'\<rparr>, [])"
          by (intro exI [of _ cs] exI [of _ "cs\<lparr>s_end_time := parse_datetime (match_group g 1)\<rparr>"]) simp
        then show ?thesis by blast
      next
        case close: None
        show ?thesis
        proof (cases "re_match SESSION_IDENT_PATTERN ?l \<noteq> None \<and> \<not> truthy channel")
          case True
          then obtain n g where i: "re_match SESSION_IDENT_PATTERN ?l = Some (n, g)"
            by auto
          let ?ok = "take 1 (match_group g 1) \<noteq> u ''#'' \<and> match_group g 1 \<noteq> u ''Status''
              \<and> match_group g 1 \<noteq> u ''Window''"
          have stp1: "step fp st line
                = (st\<lparr>current_session := Some (cs\<lparr>s_target_nick := Some (match_group g 1)\<rparr>)\<rparr>, [])"
            if "?ok"
            using True that by (simp add: step_def e Let_def start Some close i)
          have stp2: "step fp st line = (st, [])" if "\<not> ?ok"
            using True that by (auto simp: step_def e Let_def start Some close i)
          show ?thesis
          proof (cases ?ok)
            case True
            with stp1 Some
            have "\<exists>cs cs'. current_session st = Some cs \<and> s_messages cs' = s_messages cs
                \<and> step fp st line = (st\<lparr>current_session := Some cs'\<rparr>, [])"
              by (intro exI [of _ cs] exI [of _ "cs\<lparr>s_target_nick := Some (match_group g 1)\<rparr>"]) simp
            then show ?thesis by blast
          next
            case False
            with stp2 show ?thesis by blast
          qed
        next
          case False
          then have rest: "step fp st line =
              (if is_noise_line ?l then (st, [])
               else case re_match OTHER_USER_MSG_PATTERN (strip_mirc_codes ?l) of
                  Some (n, g) \<Rightarrow>
                    (add_message st cs
                       \<lparr> m_time = match_group g 1, m_nick = match_group g 2,
                         m_text = py_strip (match_group g 3), m_is_self = False \<rparr>, [])
                | None \<Rightarrow>
                    (case re_match YOUR_MSG_PATTERN (strip_mirc_codes ?l) of
                       Some (n, g) \<Rightarrow>
                         (add_message st cs
                            \<lparr> m_time = match_group g 1, m_nick = match_group g 2,
                              m_text = py_strip (match_group g 3), m_is_self = True \<rparr>, [])
                     | None \<Rightarrow> (st, [])))"
            by (cases "re_match SESSION_IDENT_PATTERN ?l")
               (auto simp: step_def e Let_def start Some close)
          show ?thesis
          proof (cases "is_noise_line ?l")
            case True
            with rest show ?thesis by simp
          next
            case False
            show ?thesis
            proof (cases "re_match OTHER_USER_MSG_PATTERN (strip_mirc_codes ?l)")
              case (Some a)
              with rest False \<open>current_session st = Some cs\<close> show ?thesis
                by (cases a) auto
            next
              case None
              with rest False \<open>current_session st = Some cs\<close> show ?thesis
                by (cases "re_match YOUR_MSG_PATTERN (strip_mirc_codes ?l)") auto
            qed
          qed
        qed
      qed
    qed
  qed
qed

lemma flush_ok:
  assumes "nicks_tracked st" and "S \<in> set (flush st)"
  shows "s_messages S \<noteq> [] \<and> s_participants S = sorted_distinct (map m_nick (s_messages S))"
  using assms
  by (auto simp: flush_def nicks_tracked_def sorted_distinct_def sorted_list_of_set_sort_remdups
      simp del: set_map split: option.splits if_splits)

lemma add_message_tracked:
  "nicks_tracked st \<Longrightarrow> current_session st = Some cs \<Longrightarrow> nicks_tracked (add_message st cs msg)"
  by (auto simp: nicks_tracked_def add_message_def)

lemma step_tracked: "nicks_tracked st \<Longrightarrow> nicks_tracked (fst (step fp st line))"
proof -
  assume t: "nicks_tracked st"
  from step_shape [of fp st line] consider
      S0 n where "fst (step fp st line) = \<lparr>current_session = Some S0, session_count = n, participants = {}\<rparr>"
        "s_messages S0 = []"
    | cs cs' where "current_session st = Some cs" "s_messages cs' = s_messages cs"
        "fst (step fp st line) = st\<lparr>current_session := Some cs'\<rparr>"
    | "fst (step fp st line) = st"
    | cs msg where "current_session st = Some cs" "fst (step fp st line) = add_message st cs msg"
    by (elim disjE exE conjE) simp_all
  then show ?thesis
  proof cases
    case 1
    then show ?thesis by (simp add: nicks_tracked_def)
  next
    case 2
    with t show ?thesis by (simp add: nicks_tracked_def)
  next
    case 3
    with t show ?thesis by simp
  next
    case 4
    with t show ?thesis by (simp add: add_message_tracked)
  qed
qed

lemma step_yields: "snd (step fp st line) = [] \<or> snd (step fp st line) = flush st"
  using step_shape [of fp st line] by auto

lemma parse_loop_ok:
  "nicks_tracked st \<Longrightarrow> S \<in> set (parse_loop fp st content) \<Longrightarrow>
     s_messages S \<noteq> [] \<and> s_participants S = sorted_distinct (map m_nick (s_messages S))"
proof (induction content arbitrary: st)
  case Nil
  then show ?case using flush_ok by simp
next
  case (Cons line rest)
  obtain st' ys where s: "step fp st line = (st', ys)"
    by (cases "step fp st line")
  with Cons.prems(2) consider "S \<in> set ys" | "S \<in> set (parse_loop fp st' rest)"
    by auto
  then show ?case
  proof cases
    case 1
    with step_yields [of fp st line] s have "S \<in> set (flush st)"
      by auto
    with Cons.prems(1) show ?thesis by (rule flush_ok)
  next
    case 2
    have "nicks_tracked st'"
      using step_tracked [OF Cons.prems(1), of fp line] s by simp
    then show ?thesis using 2 by (rule Cons.IH)
  qed
qed

lemma parse_loop_final:
  "\<exists>ys. parse_loop fp st content = ys @ flush (final_state fp st content)"
proof (induction content arbitrary: st)
  case Nil
  show ?case by simp
next
  case (Cons line rest)
  obtain ys where "parse_loop fp (fst (step fp st line)) rest
      = ys @ flush (final_state fp (fst (step fp st line)) rest)"
    using Cons.IH by blast
  then show ?case
    by (cases "step fp st line") simp
qed

lemma final_state_tracked:
  "nicks_tracked st \<Longrightarrow> nicks_tracked (final_state fp st content)"
  by (induction content arbitrary: st) (simp_all add: step_tracked)

lemma nicks_tracked_initial: "nicks_tracked initial_state"
  by (simp add: nicks_tracked_def initial_state_def)


section \<open>The lines of the round trip\<close>

lemmas eval_datetime =
  parse_datetime_def strptime_def format_regex_def a_weekday_def a_month_def py_lower_def
  py_strip_def strip_chars_def py_int_def int_space_def digits_value_def new_datetime_def
  days_in_month_def DAYS_IN_MONTH_def is_leap_def ymd2ord_def days_before_year_def
  days_before_month_def

lemma example_dates:
  "parse_datetime (u ''Tue Dec 09 18:27:34 2003'') = Some example_start"
  "parse_datetime (u ''Tue Dec 09 19:06:00 2003'') = Some example_end"
  "new_datetime 2003 12 9 18 27 34 = Some example_start"
  "new_datetime 2003 12 9 19 6 0 = Some example_end"
  "dt_year example_start = 2003"
  by (simp_all add: eval_re eval_datetime example_start_def example_end_def dt_year_def ord2year_def)

lemma example_rstrip:
  "rstrip_chars (\<lambda>x. x = 10 \<or> x = 13) start_line = u ''Session Start: Tue Dec 09 18:27:34 2003''"
  "rstrip_chars (\<lambda>x. x = 10 \<or> x = 13) alice_line = u ''[18:30] [alice] hello''"
  "rstrip_chars (\<lambda>x. x = 10 \<or> x = 13) bob_line = u ''[19:05] (bob) hi there''"
  "rstrip_chars (\<lambda>x. x = 10 \<or> x = 13) close_line = u ''Session Close: Tue Dec 09 19:06:00 2003''"
  "rstrip_chars (\<lambda>x. x = 10 \<or> x = 13) join_line = u ''[18:31] [carol] '' @ [9733] @ u '' joins''"
  by (simp_all add: start_line_def alice_line_def bob_line_def close_line_def join_line_def rstrip_chars_def u_def)

lemma start_line_match:
  "\<exists>n g. re_match SESSION_START_PATTERN (u ''Session Start: Tue Dec 09 18:27:34 2003'') = Some (n, g)
      \<and> match_group g 1 = u ''Tue Dec 09 18:27:34 2003''"
  by (simp add: eval_re SESSION_START_PATTERN_def)

lemma close_line_match:
  "re_match SESSION_START_PATTERN (u ''Session Close: Tue Dec 09 19:06:00 2003'') = None"
  "\<exists>n g. re_match SESSION_CLOSE_PATTERN (u ''Session Close: Tue Dec 09 19:06:00 2003'') = Some (n, g)
      \<and> match_group g 1 = u ''Tue Dec 09 19:06:00 2003''"
  by (simp_all add: eval_re SESSION_START_PATTERN_def SESSION_CLOSE_PATTERN_def)

lemma alice_line_match:
  "\<not> is_noise_line (u ''[18:30] [alice] hello'')"
  "strip_mirc_codes (u ''[18:30] [alice] hello'') = u ''[18:30] [alice] hello''"
  "\<exists>n g. re_match OTHER_USER_MSG_PATTERN (u ''[18:30] [alice] hello'') = Some (n, g)
      \<and> match_group g 1 = u ''18:30'' \<and> match_group g 2 = u ''alice'' \<and> match_group g 3 = u ''hello''"
  by (simp_all add: is_noise_line_def NOISE_PATTERNS_def is_bullet_def eval_strip eval_re
        OTHER_USER_MSG_PATTERN_def hh_mm_def)

lemma bob_line_match:
  "\<not> is_noise_line (u ''[19:05] (bob) hi there'')"
  "strip_mirc_codes (u ''[19:05] (bob) hi there'') = u ''[19:05] (bob) hi there''"
  "re_match OTHER_USER_MSG_PATTERN (u ''[19:05] (bob) hi there'') = None"
  "\<exists>n g. re_match YOUR_MSG_PATTERN (u ''[19:05] (bob) hi there'') = Some (n, g)
      \<and> match_group g 1 = u ''19:05'' \<and> match_group g 2 = u ''bob'' \<and> match_group g 3 = u ''hi there''"
  by (simp_all add: is_noise_line_def NOISE_PATTERNS_def is_bullet_def eval_strip eval_re
        OTHER_USER_MSG_PATTERN_def YOUR_MSG_PATTERN_def hh_mm_def)

lemma join_line_match:
  "is_noise_line (u ''[18:31] [carol] '' @ [9733] @ u '' joins'')"
  "\<exists>n g. re_match OTHER_USER_MSG_PATTERN (strip_mirc_codes (u ''[18:31] [carol] '' @ [9733] @ u '' joins''))
      = Some (n, g) \<and> match_group g 2 = u ''carol''"
  by (simp_all add: is_noise_line_def NOISE_PATTERNS_def is_bullet_def eval_strip eval_re
        OTHER_USER_MSG_PATTERN_def hh_mm_def)


lemma not_S_examples:
  "u ''[18:30] [alice] hello'' = [] \<or> hd (u ''[18:30] [alice] hello'') \<noteq> 83"
  "u ''[19:05] (bob) hi there'' = [] \<or> hd (u ''[19:05] (bob) hi there'') \<noteq> 83"
  by (simp_all add: u_def)

lemma step_start_line:
  "step fp st start_line
     = (\<lparr>current_session = Some (example_opened fp (Suc (session_count st))),
         session_count = Suc (session_count st), participants = {}\<rparr>, flush st)"
proof -
  from start_line_match obtain n g
    where "re_match SESSION_START_PATTERN (u ''Session Start: Tue Dec 09 18:27:34 2003'') = Some (n, g)"
      and "match_group g 1 = u ''Tue Dec 09 18:27:34 2003''"
    by blast
  then show ?thesis
    by (simp add: step_def example_rstrip example_dates example_opened_def case_prod_beta Let_def)
qed

lemma step_alice_line:
  assumes "current_session st = Some cs"
  shows "step fp st alice_line = (add_message st cs hello_alice, [])"
proof -
  from alice_line_match(3) obtain n g
    where "re_match OTHER_USER_MSG_PATTERN (u ''[18:30] [alice] hello'') = Some (n, g)"
      and "match_group g 1 = u ''18:30''" "match_group g 2 = u ''alice''" "match_group g 3 = u ''hello''"
    by blast
  moreover have "py_strip (u ''hello'') = u ''hello''"
    by (simp add: py_strip_def strip_chars_def py_isspace_def u_def)
  ultimately show ?thesis
    using assms
    by (simp add: step_def example_rstrip session_patterns_need_S [OF not_S_examples(1)]
        alice_line_match(1,2) hello_alice_def case_prod_beta Let_def)
qed

lemma step_bob_line:
  assumes "current_session st = Some cs"
  shows "step fp st bob_line = (add_message st cs hi_bob, [])"
proof -
  from bob_line_match(4) obtain n g
    where "re_match YOUR_MSG_PATTERN (u ''[19:05] (bob) hi there'') = Some (n, g)"
      and "match_group g 1 = u ''19:05''" "match_group g 2 = u ''bob''" "match_group g 3 = u ''hi there''"
    by blast
  moreover have "py_strip (u ''hi there'') = u ''hi there''"
    by (simp add: py_strip_def strip_chars_def py_isspace_def u_def)
  ultimately show ?thesis
    using assms
    by (simp add: step_def example_rstrip session_patterns_need_S [OF not_S_examples(2)]
        bob_line_match(1,2,3) hi_bob_def case_prod_beta Let_def)
qed

lemma step_close_line:
  assumes "current_session st = Some cs"
  shows "step fp st close_line
     = (st\<lparr>current_session := Some (cs\<lparr>s_end_time := Some example_end\<rparr>)\<rparr>, [])"
proof -
  from close_line_match(2) obtain n g
    where "re_match SESSION_CLOSE_PATTERN (u ''Session Close: Tue Dec 09 19:06:00 2003'') = Some (n, g)"
      and "match_group g 1 = u ''Tue Dec 09 19:06:00 2003''"
    by blast
  then show ?thesis
    using assms
    by (simp add: step_def example_rstrip close_line_match(1) example_dates case_prod_beta Let_def)
qed

lemma alice_before_bob: "u ''alice'' < u ''bob''"
  by (simp add: u_def)

lemma sorted_alice_bob: "sorted_list_of_set {u ''bob'', u ''alice''} = [u ''alice'', u ''bob'']"
proof -
  have "sorted [u ''alice'', u ''bob''] \<and> distinct [u ''alice'', u ''bob'']"
    using alice_before_bob by auto
  then have a: "sorted_list_of_set (set [u ''alice'', u ''bob'']) = [u ''alice'', u ''bob'']"
    by (intro sorted_list_of_set.idem_if_sorted_distinct) auto
  have b: "set [u ''alice'', u ''bob''] = {u ''bob'', u ''alice''}"
    by auto
  show ?thesis
    using a unfolding b .
qed

lemma final_state_append:
  "final_state fp st (xs @ ys) = final_state fp (final_state fp st xs) ys"
  by (induction xs arbitrary: st) simp_all

lemma example_run:
  "final_state fp st example_lines = after_example fp st"
  "parse_loop fp st (example_lines @ rest) = flush st @ parse_loop fp (after_example fp st) rest"
proof -
  define c1 where "c1 = example_opened fp (Suc (session_count st))"
  define s1 where "s1 = \<lparr>current_session = Some c1, session_count = Suc (session_count st),
    participants = {}\<rparr>"
  define c2 where "c2 = c1\<lparr>s_messages := [hello_alice]\<rparr>"
  define s2 where "s2 = s1\<lparr>current_session := Some c2, participants := {u ''alice''}\<rparr>"
  define c3 where "c3 = c1\<lparr>s_messages := [hello_alice, hi_bob]\<rparr>"
  define s3 where "s3 = s1\<lparr>current_session := Some c3, participants := {u ''bob'', u ''alice''}\<rparr>"
  define s4 where "s4 = s3\<lparr>current_session := Some (c3\<lparr>s_end_time := Some example_end\<rparr>)\<rparr>"
  have m1: "s_messages c1 = []"
    by (simp add: c1_def example_opened_def)
  have t1: "m_text hello_alice \<noteq> []" "m_nick hello_alice = u ''alice''"
    and t2: "m_text hi_bob \<noteq> []" "m_nick hi_bob = u ''bob''"
    by (simp_all add: hello_alice_def hi_bob_def u_def)
  have a2: "add_message s1 c1 hello_alice = s2"
    by (simp add: add_message_def t1 s2_def c2_def m1 s1_def)
  have a3: "add_message s2 c2 hi_bob = s3"
    by (simp add: add_message_def t2 s3_def s2_def c3_def c2_def s1_def)
  have 1: "step fp st start_line = (s1, flush st)"
    unfolding s1_def c1_def by (rule step_start_line)
  have 2: "step fp s1 alice_line = (s2, [])"
    using step_alice_line [of s1 c1 fp] a2 by (simp add: s1_def)
  have 3: "step fp s2 bob_line = (s3, [])"
    using step_bob_line [of s2 c2 fp] a3 by (simp add: s2_def)
  have 4: "step fp s3 close_line = (s4, [])"
    using step_close_line [of s3 c3 fp] by (simp add: s3_def s4_def)
  have e: "s4 = after_example fp st"
    by (simp add: s4_def s3_def s1_def c3_def c1_def after_example_def example_opened_def)
  show "final_state fp st example_lines = after_example fp st"
    unfolding example_lines_def by (simp add: 1 2 3 4 e)
  show "parse_loop fp st (example_lines @ rest) = flush st @ parse_loop fp (after_example fp st) rest"
    unfolding example_lines_def by (simp add: 1 2 3 4 e)
qed


section \<open>Claims about the chunker\<close>

text \<open>
  C1, as the code has it. On every session the chunks yielded carry the indices
  \<open>0..k-1\<close> in order, the \<open>message_count\<close> of each is the length of the buffer its
  text was formatted from, and the buffers, concatenated in chunk order, are a prefix of
  the session's messages. When the generator runs to its end the prefix is the whole
  message list; it does so whenever the session has no start date, or a start date before
  9999-12-31 and no message time on which \<open>parse_time\<close> raises.
\<close>

theorem chunk_session_partition:
  "map c_chunk_index (fst (chunk_session S)) = [0 ..< length (fst (chunk_session S))]
   \<and> map c_message_count (fst (chunk_session S)) = map length (chunk_buffers S)
   \<and> map c_text (fst (chunk_session S)) = map format_chunk_text (chunk_buffers S)
   \<and> (\<exists>rest. s_messages S = concat (chunk_buffers S) @ rest)
   \<and> (snd (chunk_session S) = None \<longrightarrow> concat (chunk_buffers S) = s_messages S)
   \<and> ((\<forall>d. s_start_time S = Some d \<longrightarrow> dt_ordinal d < MAXORDINAL
            \<and> (\<forall>m \<in> set (s_messages S). \<forall>e. parse_time (m_time m) (Some d) \<noteq> Inl e))
        \<longrightarrow> snd (chunk_session S) = None)"
proof (cases S rule: chunk_trace_cases)
  case 1
  then show ?thesis by (simp add: chunk_session_def chunk_buffers_def)
next
  case 2
  obtain ys e where loop: "chunk_loop S [] 0 0 (s_messages S) = (ys, e)"
    by (cases "chunk_loop S [] 0 0 (s_messages S)")
  have cs: "chunk_session S = (map snd ys, e)" and bs: "chunk_buffers S = map fst ys"
    using 2 loop by (simp_all add: chunk_session_def chunk_buffers_def)
  have made: "c = emit_chunk S buf (c_chunk_index c)" if "(buf, c) \<in> set ys" for buf c
    using chunk_loop_emitted [OF loop that] by simp
  have idx: "map c_chunk_index (map snd ys) = [0 ..< length ys]"
    using chunk_loop_indices [OF loop] by simp
  have cnt: "map c_message_count (map snd ys) = map length (map fst ys)"
  proof (simp, intro ballI)
    fix y assume "y \<in> set ys"
    then have "snd y = emit_chunk S (fst y) (c_chunk_index (snd y))"
      using made [of "fst y" "snd y"] by simp
    then show "c_message_count (snd y) = length (fst y)"
      by (metis emit_chunk_fields(2))
  qed
  have texts: "map c_text (map snd ys) = map format_chunk_text (map fst ys)"
  proof (simp, intro ballI)
    fix y assume "y \<in> set ys"
    then have "snd y = emit_chunk S (fst y) (c_chunk_index (snd y))"
      using made [of "fst y" "snd y"] by simp
    then show "c_text (snd y) = format_chunk_text (fst y)"
      by (metis emit_chunk_fields(3))
  qed
  have pre: "(\<exists>rest. s_messages S = concat (map fst ys) @ rest)
      \<and> (e = None \<longrightarrow> concat (map fst ys) = s_messages S)"
    using chunk_loop_prefix [OF loop] by simp
  have tot: "e = None"
    if h: "\<forall>d. s_start_time S = Some d \<longrightarrow> dt_ordinal d < MAXORDINAL
            \<and> (\<forall>m \<in> set (s_messages S). \<forall>e. parse_time (m_time m) (Some d) \<noteq> Inl e)"
  proof -
    have "snd (chunk_loop S [] 0 0 (s_messages S)) = None"
    proof (rule chunk_loop_total)
      show "dt_ordinal d < MAXORDINAL" if "s_start_time S = Some d" for d
        using that h by simp
      show "parse_time (m_time m) (s_start_time S) \<noteq> Inl e'"
        if "m \<in> set [] \<union> set (s_messages S)" for m e'
        using that h by (cases "s_start_time S") (simp_all add: parse_time_no_date)
    qed
    with loop show ?thesis by simp
  qed
  show ?thesis
    unfolding cs bs using idx cnt texts pre tot by simp
qed

theorem chunk_session_partition_witness:
  "s_start_time (example_session (Some example_start) gapped) = Some example_start
   \<and> dt_ordinal example_start < MAXORDINAL
   \<and> list_all (\<lambda>m. \<not> isl (parse_time (m_time m) (Some example_start))) gapped
   \<and> snd (chunk_session (example_session (Some example_start) gapped)) = None
   \<and> concat (chunk_buffers (example_session (Some example_start) gapped)) = gapped
   \<and> map c_chunk_index (fst (chunk_session (example_session (Some example_start) gapped))) = [0, 1, 2]
   \<and> map c_message_count (fst (chunk_session (example_session (Some example_start) gapped))) = [3, 1, 3]"
proof -
  let ?S = "example_session (Some example_start) gapped"
  have s: "s_start_time ?S = Some example_start" and m: "s_messages ?S = gapped"
    by (simp_all add: example_session_def)
  have o: "dt_ordinal example_start < MAXORDINAL"
    by (simp add: example_start_def MAXORDINAL_def)
  have p: "list_all (\<lambda>m. \<not> isl (parse_time (m_time m) (Some example_start))) gapped"
    by (simp add: eval_chunker)
  have h: "\<forall>d. s_start_time ?S = Some d \<longrightarrow> dt_ordinal d < MAXORDINAL
        \<and> (\<forall>m \<in> set (s_messages ?S). \<forall>e. parse_time (m_time m) (Some d) \<noteq> Inl e)"
    using o p unfolding s m by (auto simp: list_all_iff)
  have b: "map length (chunk_buffers ?S) = [3, 1, 3]"
    by (simp add: eval_chunker)
  from chunk_session_partition [of ?S] h have n: "snd (chunk_session ?S) = None"
    by blast
  from chunk_session_partition [of ?S] n have c: "concat (chunk_buffers ?S) = gapped"
    unfolding m by blast
  have "length (fst (chunk_session ?S)) = 3"
    using chunk_session_partition [of ?S] b by (metis length_map length_Cons list.size(3) numeral_3_eq_3)
  then have i: "map c_chunk_index (fst (chunk_session ?S)) = [0, 1, 2]"
    using chunk_session_partition [of ?S] by (simp add: upt_rec)
  have k: "map c_message_count (fst (chunk_session ?S)) = [3, 1, 3]"
    using chunk_session_partition [of ?S] b by simp
  from s o p n c i k show ?thesis by blast
qed

text \<open>
  C1 as stated fails: on a session that starts on 9999-12-31, with a message at 23:55
  followed by one at 00:10, the generator raises before it yields anything, and the
  buffers do not add up to the messages.
\<close>

theorem chunk_session_partition_counterexample:
  "concat (chunk_buffers (example_session (Some last_day) overnight))
     \<noteq> s_messages (example_session (Some last_day) overnight)"
  by (simp add: eval_chunker)

text \<open>
  C2, as the code has it. Every chunk yielded holds at most 20 messages, and no two
  neighbours inside it whose times both parse under the session date lie more than 30
  minutes apart (the candidate counted on the next day when its time of day is the
  smaller). The text of a chunk of two or more messages is shorter than 8000 characters;
  a chunk of one message is that message's line, whatever its length.
\<close>

theorem chunk_bounds:
  assumes "(buf, c) \<in> set (zip (chunk_buffers S) (fst (chunk_session S)))"
  shows "c_message_count c = length buf \<and> c_text c = format_chunk_text buf
     \<and> 1 \<le> c_message_count c \<and> c_message_count c \<le> MAX_MESSAGES_PER_CHUNK
     \<and> (2 \<le> c_message_count c \<longrightarrow> length (c_text c) < MAX_CHARS_PER_CHUNK)
     \<and> (c_message_count c = 1 \<longrightarrow> c_text c = format_line (hd buf))
     \<and> successively (gap_within (s_start_time S)) buf"
proof -
  from assms have mem: "(buf, c) \<in> set (fst (chunk_trace S))"
    by (simp add: chunk_trace_zip)
  then have ne: "s_messages S \<noteq> []"
    by (auto simp: chunk_trace_def split: if_splits)
  obtain ys e where loop: "chunk_loop S [] 0 0 (s_messages S) = (ys, e)"
    by (cases "chunk_loop S [] 0 0 (s_messages S)")
  with mem ne have in_ys: "(buf, c) \<in> set ys"
    by (simp add: chunk_trace_def)
  from chunk_loop_emitted [OF loop in_ys]
  have buf: "buf \<noteq> []" and c: "c = emit_chunk S buf (c_chunk_index c)"
    by simp_all
  have count: "c_message_count c = length buf" and ctext: "c_text c = format_chunk_text buf"
    by (metis c emit_chunk_fields(2)) (metis c emit_chunk_fields(3))
  have le: "length buf \<le> MAX_MESSAGES_PER_CHUNK"
    by (rule chunk_loop_count [OF loop _ in_ys]) simp
  have chars: "total_chars buf \<le> MAX_CHARS_PER_CHUNK" if "2 \<le> length buf"
    by (rule chunk_loop_chars [OF loop _ _ in_ys that]) (simp_all add: total_chars_def)
  have short: "length (format_chunk_text buf) < MAX_CHARS_PER_CHUNK" if "2 \<le> length buf"
    using chars [OF that] format_chunk_text_length [OF buf] by simp
  have one: "format_chunk_text buf = format_line (hd buf)" if "length buf = 1"
    using that by (cases buf) (simp_all add: format_chunk_text_def)
  have "successively (\<lambda>a b. should_split a b (s_start_time S) = Inr False) buf"
    by (rule chunk_loop_gaps [OF loop _ in_ys]) simp
  then have gaps: "successively (gap_within (s_start_time S)) buf"
    by (rule successively_mono) (simp_all add: should_split_False_gap)
  from buf have "1 \<le> length buf"
    by (cases buf) simp_all
  with count ctext le short one gaps show ?thesis by simp
qed

theorem chunk_bounds_witness:
  "(take 3 gapped, hd (fst (chunk_session (example_session (Some example_start) gapped))))
      \<in> set (zip (chunk_buffers (example_session (Some example_start) gapped))
                 (fst (chunk_session (example_session (Some example_start) gapped))))
   \<and> c_message_count (hd (fst (chunk_session (example_session (Some example_start) gapped)))) = 3
   \<and> length (c_text (hd (fst (chunk_session (example_session (Some example_start) gapped)))))
        < MAX_CHARS_PER_CHUNK
   \<and> successively (gap_within (Some example_start)) (take 3 gapped)"
proof -
  let ?S = "example_session (Some example_start) gapped"
  have "fst (chunk_trace ?S) \<noteq> []" and "fst (hd (fst (chunk_trace ?S))) = take 3 gapped"
    by (simp_all add: eval_chunker)
  then have "(take 3 gapped, snd (hd (fst (chunk_trace ?S)))) \<in> set (fst (chunk_trace ?S))"
    by (metis hd_in_set prod.collapse)
  moreover have "snd (hd (fst (chunk_trace ?S))) = hd (fst (chunk_session ?S))"
    using \<open>fst (chunk_trace ?S) \<noteq> []\<close> by (cases "chunk_trace ?S") (simp add: chunk_session_def hd_map)
  ultimately have mem: "(take 3 gapped, hd (fst (chunk_session ?S)))
      \<in> set (zip (chunk_buffers ?S) (fst (chunk_session ?S)))"
    by (simp add: chunk_trace_zip)
  have len: "length (take 3 gapped) = 3"
    by (simp add: gapped_def)
  have s: "s_start_time ?S = Some example_start"
    by (simp add: example_session_def)
  from chunk_bounds [OF mem] len
  have count: "c_message_count (hd (fst (chunk_session ?S))) = 3"
    by simp
  from chunk_bounds [OF mem]
  have "2 \<le> c_message_count (hd (fst (chunk_session ?S)))
      \<longrightarrow> length (c_text (hd (fst (chunk_session ?S)))) < MAX_CHARS_PER_CHUNK"
    by blast
  with count have short: "length (c_text (hd (fst (chunk_session ?S)))) < MAX_CHARS_PER_CHUNK"
    by simp
  from chunk_bounds [OF mem] s
  have gaps: "successively (gap_within (Some example_start)) (take 3 gapped)"
    by simp
  from mem count short gaps show ?thesis
    by blast
qed

text \<open>
  C2 as stated fails on the length of the text: a session of one message whose text has
  8000 characters yields one chunk, and its text is longer than 8000 characters.
\<close>

theorem chunk_bounds_counterexample:
  "length (fst (chunk_session (example_session None oversized))) = 1
   \<and> MAX_CHARS_PER_CHUNK
        < length (c_text (hd (fst (chunk_session (example_session None oversized)))))"
  by (simp add: eval_chunker emit_chunk_fields format_chunk_text_def)

text \<open>
  C4, as the code has it. Under a session date before 9999-12-31, for two messages whose
  times both parse, \<open>should_split\<close> answers whether the gap in minutes exceeds 30, where
  a candidate whose time of day is smaller than the previous one is counted on the next
  day (1440 minutes later). From 23:55 to 00:10 the gap is 15 minutes and there is no
  split.
\<close>

theorem should_split_rollover:
  assumes "dt_ordinal d < MAXORDINAL"
    and "parse_time (m_time prev_msg) (Some d) = Inr (Some p)"
    and "parse_time (m_time curr_msg) (Some d) = Inr (Some c)"
  shows "should_split prev_msg curr_msg (Some d) = Inr (TIME_GAP_MINUTES < spec_gap_minutes p c)
     \<and> (minute_of_day c < minute_of_day p
          \<longrightarrow> spec_gap_minutes p c = minute_of_day c + 24 * 60 - minute_of_day p)
     \<and> (m_time prev_msg = u ''23:55'' \<and> m_time curr_msg = u ''00:10''
          \<longrightarrow> spec_gap_minutes p c = 15 \<and> should_split prev_msg curr_msg (Some d) = Inr False)"
proof -
  have main: "should_split prev_msg curr_msg (Some d) = Inr (TIME_GAP_MINUTES < spec_gap_minutes p c)"
    using should_split_parsed [OF assms(2,3)] assms(1) by simp
  have gap: "spec_gap_minutes p c = 15"
    if "m_time prev_msg = u ''23:55''" "m_time curr_msg = u ''00:10''"
  proof -
    have "parse_time (u ''23:55'') (Some d) = Inr (Some (d\<lparr>dt_hour := 23, dt_minute := 55\<rparr>))"
      and "parse_time (u ''00:10'') (Some d) = Inr (Some (d\<lparr>dt_hour := 0, dt_minute := 10\<rparr>))"
      by (simp_all add: eval_chunker)
    with assms(2,3) that have "p = d\<lparr>dt_hour := 23, dt_minute := 55\<rparr>" "c = d\<lparr>dt_hour := 0, dt_minute := 10\<rparr>"
      by simp_all
    then show ?thesis
      by (simp add: spec_gap_minutes_def minute_of_day_def)
  qed
  show ?thesis
    using main gap by (simp add: spec_gap_minutes_def TIME_GAP_MINUTES_def)
qed

theorem should_split_rollover_witness:
  "dt_ordinal example_start < MAXORDINAL
   \<and> parse_time (m_time (overnight ! 0)) (Some example_start)
        = Inr (Some (example_start\<lparr>dt_hour := 23, dt_minute := 55\<rparr>))
   \<and> parse_time (m_time (overnight ! 1)) (Some example_start)
        = Inr (Some (example_start\<lparr>dt_hour := 0, dt_minute := 10\<rparr>))
   \<and> minute_of_day (example_start\<lparr>dt_hour := 0, dt_minute := 10\<rparr>)
        < minute_of_day (example_start\<lparr>dt_hour := 23, dt_minute := 55\<rparr>)
   \<and> m_time (overnight ! 0) = u ''23:55'' \<and> m_time (overnight ! 1) = u ''00:10''
   \<and> spec_gap_minutes (example_start\<lparr>dt_hour := 23, dt_minute := 55\<rparr>)
        (example_start\<lparr>dt_hour := 0, dt_minute := 10\<rparr>) = 15
   \<and> should_split (overnight ! 0) (overnight ! 1) (Some example_start) = Inr False"
proof -
  have o: "dt_ordinal example_start < MAXORDINAL"
    by (simp add: example_start_def MAXORDINAL_def)
  have p: "parse_time (m_time (overnight ! 0)) (Some example_start)
        = Inr (Some (example_start\<lparr>dt_hour := 23, dt_minute := 55\<rparr>))"
    by (simp add: eval_chunker)
  have c: "parse_time (m_time (overnight ! 1)) (Some example_start)
        = Inr (Some (example_start\<lparr>dt_hour := 0, dt_minute := 10\<rparr>))"
    by (simp add: eval_chunker)
  have l: "minute_of_day (example_start\<lparr>dt_hour := 0, dt_minute := 10\<rparr>)
        < minute_of_day (example_start\<lparr>dt_hour := 23, dt_minute := 55\<rparr>)"
    by (simp add: minute_of_day_def)
  have t: "m_time (overnight ! 0) = u ''23:55''" "m_time (overnight ! 1) = u ''00:10''"
    by (simp_all add: overnight_def example_message_def)
  from should_split_rollover [OF o p c] t
  have r: "spec_gap_minutes (example_start\<lparr>dt_hour := 23, dt_minute := 55\<rparr>)
        (example_start\<lparr>dt_hour := 0, dt_minute := 10\<rparr>) = 15
      \<and> should_split (overnight ! 0) (overnight ! 1) (Some example_start) = Inr False"
    by blast
  from o p c l t r show ?thesis
    by blast
qed

text \<open>
  C4 as stated fails under the session date 9999-12-31: the candidate at 00:10 cannot be
  moved to the next day, and \<open>should_split\<close> raises instead of answering.
\<close>

theorem should_split_rollover_counterexample:
  "should_split (overnight ! 0) (overnight ! 1) (Some last_day) \<noteq> Inr False
   \<and> should_split (overnight ! 0) (overnight ! 1) (Some last_day) = Inl OverflowError"
  by (simp add: eval_chunker)

text \<open>
  C5. \<open>should_split\<close> does answer \<open>False\<close> when one of the two times comes back from
  \<open>parse_time\<close> as \<open>None\<close> and the other call returns. But \<open>parse_time\<close> catches
  \<open>ValueError\<close> and \<open>AttributeError\<close> only: a time whose hour or minute does not fit
  a C \<open>int\<close> makes \<open>replace\<close> raise \<open>OverflowError\<close>, and \<open>should_split\<close> raises
  with it, here after an empty time for the previous message.
\<close>

theorem should_split_huge_hour:
  "parse_time (m_time (huge_hour ! 0)) (Some example_start) = Inr None
   \<and> parse_time (m_time (huge_hour ! 1)) (Some example_start) = Inl OverflowError
   \<and> should_split (huge_hour ! 0) (huge_hour ! 1) (Some example_start) = Inl OverflowError"
  by (simp add: eval_chunker)

text \<open>
  C10. The output file holds exactly the chunks of \<open>chunk_session\<close> whose
  \<open>message_count\<close> reaches \<open>min_messages\<close>, in order, and the counters count those
  only. So a session whose only chunk is below the threshold leaves no chunk in the
  output, and the indices in the output can have gaps: the session \<open>gapped\<close> has chunks
  of 3, 1 and 3 messages, of which the default threshold keeps the first and the third.
\<close>

theorem process_sessions_filter:
  "written (fst (process_sessions sessions min_messages))
      = filter (\<lambda>c. min_messages \<le> int (c_message_count c)) (yielded_chunks sessions)
   \<and> total_chunks (fst (process_sessions sessions min_messages))
      = length (written (fst (process_sessions sessions min_messages)))
   \<and> total_messages (fst (process_sessions sessions min_messages))
      = sum_list (map c_message_count (written (fst (process_sessions sessions min_messages))))
   \<and> (chunk_session S = ([c], None) \<and> int (c_message_count c) < min_messages
        \<longrightarrow> written (fst (process_sessions [S] min_messages)) = [])
   \<and> map c_chunk_index
        (written (fst (process_sessions [example_session (Some example_start) gapped]
           DEFAULT_MIN_MESSAGES))) = [0, 2]"
proof -
  have run: "written (fst (process_sessions ss m))
      = filter (\<lambda>c. m \<le> int (c_message_count c)) (yielded_chunks ss)
    \<and> total_chunks (fst (process_sessions ss m))
      = length (filter (\<lambda>c. m \<le> int (c_message_count c)) (yielded_chunks ss))
    \<and> total_messages (fst (process_sessions ss m))
      = sum_list (map c_message_count (filter (\<lambda>c. m \<le> int (c_message_count c)) (yielded_chunks ss)))"
    for ss m
  proof -
    obtain r e where loop: "process_loop m ss
        \<lparr> written = [], total_sessions = 0, total_chunks = 0, total_messages = 0 \<rparr> = (r, e)"
      by (cases "process_loop m ss
        \<lparr> written = [], total_sessions = 0, total_chunks = 0, total_messages = 0 \<rparr>")
    then have "fst (process_sessions ss m) = r"
      by (simp add: process_sessions_def split: option.splits)
    with process_loop_run [OF loop] show ?thesis by simp
  qed
  have single: "written (fst (process_sessions [S] min_messages)) = []"
    if "chunk_session S = ([c], None)" "int (c_message_count c) < min_messages"
    using that run [of "[S]" min_messages] by simp
  let ?S = "example_session (Some example_start) gapped"
  have "chunk_trace ?S =
     ([(take 3 gapped, emit_chunk ?S (take 3 gapped) 0),
       ([gapped ! 3], emit_chunk ?S [gapped ! 3] (Suc 0)),
       (drop 4 gapped, emit_chunk ?S (drop 4 gapped) (Suc (Suc 0)))], None)"
    by (simp add: eval_chunker)
  then have "chunk_session ?S =
     ([emit_chunk ?S (take 3 gapped) 0, emit_chunk ?S [gapped ! 3] (Suc 0),
       emit_chunk ?S (drop 4 gapped) (Suc (Suc 0))], None)"
    by (simp add: chunk_session_def)
  then have "map c_chunk_index (written (fst (process_sessions [?S] DEFAULT_MIN_MESSAGES))) = [0, 2]"
    using run [of "[?S]" DEFAULT_MIN_MESSAGES]
    by (simp add: emit_chunk_fields DEFAULT_MIN_MESSAGES_def gapped_def numeral_2_eq_2)
  with run [of sessions min_messages] single show ?thesis
    by simp
qed

theorem process_sessions_filter_witness:
  "chunk_session (example_session None [gapped ! 0])
      = ([emit_chunk (example_session None [gapped ! 0]) [gapped ! 0] 0], None)
   \<and> int (c_message_count (emit_chunk (example_session None [gapped ! 0]) [gapped ! 0] 0))
        < DEFAULT_MIN_MESSAGES
   \<and> written (fst (process_sessions [example_session None [gapped ! 0]] DEFAULT_MIN_MESSAGES)) = []
   \<and> yielded_chunks [example_session None [gapped ! 0]]
        = [emit_chunk (example_session None [gapped ! 0]) [gapped ! 0] 0]"
proof -
  let ?S = "example_session None [gapped ! 0]"
  let ?c = "emit_chunk ?S [gapped ! 0] 0"
  have cs: "chunk_session ?S = ([?c], None)"
    by (simp add: eval_chunker)
  have lt: "int (c_message_count ?c) < DEFAULT_MIN_MESSAGES"
    by (simp add: emit_chunk_fields DEFAULT_MIN_MESSAGES_def)
  have y: "yielded_chunks [?S] = [?c]"
    by (simp add: cs)
  from process_sessions_filter [of "[?S]" DEFAULT_MIN_MESSAGES ?S ?c] cs lt y show ?thesis
    by simp
qed



section \<open>Claims about the parser\<close>

text \<open>
  C9, as the code has it. \<open>strip_mirc_codes\<close> removes the colour codes, the six style
  codes and the decorative glyphs, and then trims white space at both ends: its result is
  \<open>strip()\<close> of what the specification describes. It only deletes characters, none of
  the codes or glyphs is left, the result neither begins nor ends with white space, and on
  a text without codes and glyphs it is \<open>strip()\<close> of the text.
\<close>

theorem strip_mirc_codes_trims:
  "strip_mirc_codes t = py_strip (spec_normalize t)
   \<and> subseq (strip_mirc_codes t) t
   \<and> (\<forall>x \<in> set (strip_mirc_codes t). \<not> is_control_code x \<and> \<not> is_decoration x)
   \<and> (strip_mirc_codes t \<noteq> [] \<longrightarrow>
        \<not> py_isspace (hd (strip_mirc_codes t)) \<and> \<not> py_isspace (last (strip_mirc_codes t)))
   \<and> ((\<forall>x \<in> set t. \<not> is_control_code x \<and> \<not> is_decoration x) \<longrightarrow> strip_mirc_codes t = py_strip t)"
proof -
  have eq: "strip_mirc_codes t = py_strip (spec_normalize t)"
    by (simp add: strip_mirc_codes_def spec_normalize_def Let_def)
  have sub: "subseq (strip_mirc_codes t) (spec_normalize t)"
    unfolding eq py_strip_def by (rule strip_chars_subseq)
  then have sub': "subseq (strip_mirc_codes t) t"
    using spec_normalize_subseq subseq_order.trans by blast
  have clean: "\<not> is_control_code x \<and> \<not> is_decoration x" if "x \<in> set (strip_mirc_codes t)" for x
  proof -
    from sub that have "x \<in> set (spec_normalize t)"
      using subseq_subset by blast
    then show ?thesis by (rule spec_normalize_clean)
  qed
  have trimmed: "\<not> py_isspace (hd (strip_mirc_codes t)) \<and> \<not> py_isspace (last (strip_mirc_codes t))"
    if "strip_mirc_codes t \<noteq> []"
    using that strip_chars_trimmed [of py_isspace "spec_normalize t"] unfolding eq py_strip_def by blast
  have plain: "strip_mirc_codes t = py_strip t"
    if "\<forall>x \<in> set t. \<not> is_control_code x \<and> \<not> is_decoration x"
    using spec_normalize_id [OF that] eq by simp
  from eq sub' clean trimmed plain show ?thesis by blast
qed

theorem strip_mirc_codes_trims_witness:
  "strip_mirc_codes ([3] @ u ''04,12 hi '' @ [2, 9472]) = u ''hi''
   \<and> spec_normalize ([3] @ u ''04,12 hi '' @ [2, 9472]) = u '' hi ''
   \<and> list_all (\<lambda>x. \<not> is_control_code x \<and> \<not> is_decoration x) (u '' hi '')
   \<and> strip_mirc_codes (u '' hi '') = py_strip (u '' hi '')
   \<and> \<not> py_isspace (hd (strip_mirc_codes (u '' hi '')))"
proof -
  have a: "spec_normalize ([3] @ u ''04,12 hi '' @ [2, 9472]) = u '' hi ''"
    by (simp add: eval_strip)
  have b: "py_strip (u '' hi '') = u ''hi''"
    by (simp add: eval_strip)
  have c: "list_all (\<lambda>x. \<not> is_control_code x \<and> \<not> is_decoration x) (u '' hi '')"
    by (simp add: eval_strip is_control_code_def)
  then have c': "\<forall>x \<in> set (u '' hi ''). \<not> is_control_code x \<and> \<not> is_decoration x"
    by (simp add: list_all_iff)
  have d: "strip_mirc_codes ([3] @ u ''04,12 hi '' @ [2, 9472]) = u ''hi''"
    using strip_mirc_codes_trims [of "[3] @ u ''04,12 hi '' @ [2, 9472]"] a b by simp
  have e: "strip_mirc_codes (u '' hi '') = py_strip (u '' hi '')"
    using strip_mirc_codes_trims [of "u '' hi ''"] c' by blast
  have "strip_mirc_codes (u '' hi '') \<noteq> []"
    using e b by (simp add: u_def)
  then have f: "\<not> py_isspace (hd (strip_mirc_codes (u '' hi '')))"
    using strip_mirc_codes_trims [of "u '' hi ''"] by blast
  from a c d e f show ?thesis by blast
qed

text \<open>
  C9 as stated fails: on \<open>" hi "\<close>, which holds no code and no glyph, the result is
  \<open>"hi"\<close>; the white space at both ends is not preserved.
\<close>

theorem strip_mirc_codes_trims_counterexample:
  "strip_mirc_codes (u '' hi '') \<noteq> spec_normalize (u '' hi '')
   \<and> strip_mirc_codes (u '' hi '') = u ''hi''"
  by (simp add: eval_strip)


end
